theory Spec2Isabelle
  imports Complex_Main
begin

section \<open>Continuous-rotation 2D scan registration (CtRot2DScanRegistration.cpp)\<close>

text \<open>
  A shallow embedding of \<^verbatim>\<open>CtRot2DScanRegistration::process\<close> and
  \<^verbatim>\<open>CtRot2DScanRegistration::extractFeatures\<close>.

  Conventions of the embedding:
  \<^item> an unchecked \<^verbatim>\<open>operator[]\<close> read or write past the end of a vector, a
    double-to-int conversion whose value does not fit \<^verbatim>\<open>int\<close> and a signed
    overflow are undefined behaviour in C++; the model returns them as values of
    type \<open>error\<close>;
  \<^item> \<^verbatim>\<open>size_t\<close> is 64 bits wide; a \<^verbatim>\<open>size_t\<close> value is a \<open>nat\<close> below
    \<open>2 ^ 64\<close>, and the subtractions of the source, which can wrap, are written
    with \<open>size_sub\<close>;
  \<^item> a \<^verbatim>\<open>float\<close> is an IEEE 754 single-precision value with signed zeros,
    infinities and NaN, and the \<^verbatim>\<open>float\<close> operations round to nearest, ties to
    even; a \<^verbatim>\<open>double\<close> (the time stamps, the scan period and the literal
    \<^verbatim>\<open>0.0001\<close>) is the real it denotes.
\<close>

subsection \<open>Errors\<close>

datatype error = OutOfBounds | IntConversionUndefined | SignedOverflow

definition bindE :: "error + 'a \<Rightarrow> ('a \<Rightarrow> error + 'b) \<Rightarrow> error + 'b" where
  "bindE m f = (case m of Inl e \<Rightarrow> Inl e | Inr v \<Rightarrow> f v)"

subsection \<open>size_t arithmetic\<close>

text \<open>\<^verbatim>\<open>a - b\<close> on \<^verbatim>\<open>size_t\<close>: wraps around below zero.\<close>

definition size_sub :: "nat \<Rightarrow> nat \<Rightarrow> nat" where
  "size_sub a b = (if b \<le> a then a - b else a + 2 ^ 64 - b)"

text \<open>\<^verbatim>\<open>a * b\<close> on \<^verbatim>\<open>size_t\<close>.\<close>

definition size_mul :: "nat \<Rightarrow> nat \<Rightarrow> nat" where
  "size_mul a b = (a * b) mod 2 ^ 64"

text \<open>
  \<^verbatim>\<open>int(n / d)\<close> for a \<^verbatim>\<open>size_t\<close> \<open>n\<close> and the double constant \<open>d\<close> (4.0 or
  2.0 in the source). Whenever the quotient fits \<^verbatim>\<open>int\<close>, \<open>n\<close> is below
  \<open>2 ^ 33\<close>, its conversion to double and the division by a power of two are
  exact, and the conversion to \<^verbatim>\<open>int\<close> truncates, which is \<open>div\<close> on naturals.
  Otherwise the conversion is undefined.
\<close>

definition int_of_quotient :: "nat \<Rightarrow> nat \<Rightarrow> error + nat" where
  "int_of_quotient n d =
     (if n div d < 2 ^ 31 then Inr (n div d) else Inl IntConversionUndefined)"

text \<open>\<^verbatim>\<open>c + q\<close> on \<^verbatim>\<open>int\<close>, for non-negative operands.\<close>

definition int_plus :: "nat \<Rightarrow> nat \<Rightarrow> error + nat" where
  "int_plus c q = (if c + q < 2 ^ 31 then Inr (c + q) else Inl SignedOverflow)"

subsection \<open>The region tables of extractFeatures\<close>

text \<open>
  \<^verbatim>\<open>
  size_t cloudSize = _laserCloud.size();
  size_t startPoints[4] = {5,
                           6 + int((cloudSize - 10) / 4.0),
                           6 + int((cloudSize - 10) / 2.0),
                           6 + int(3 * (cloudSize - 10) / 4.0)};
  size_t endPoints[4] = {5 + int((cloudSize - 10) / 4.0),
                         5 + int((cloudSize - 10) / 2.0),
                         5 + int(3 * (cloudSize - 10) / 4.0),
                         cloudSize - 6};
  \<close>
\<close>

definition startPoints :: "nat \<Rightarrow> error + nat list" where
  "startPoints cloudSize =
     bindE (int_of_quotient (size_sub cloudSize 10) 4) (\<lambda>q1.
     bindE (int_plus 6 q1) (\<lambda>s1.
     bindE (int_of_quotient (size_sub cloudSize 10) 2) (\<lambda>q2.
     bindE (int_plus 6 q2) (\<lambda>s2.
     bindE (int_of_quotient (size_mul 3 (size_sub cloudSize 10)) 4) (\<lambda>q3.
     bindE (int_plus 6 q3) (\<lambda>s3.
     Inr [5, s1, s2, s3]))))))"

definition endPoints :: "nat \<Rightarrow> error + nat list" where
  "endPoints cloudSize =
     bindE (int_of_quotient (size_sub cloudSize 10) 4) (\<lambda>q1.
     bindE (int_plus 5 q1) (\<lambda>e0.
     bindE (int_of_quotient (size_sub cloudSize 10) 2) (\<lambda>q2.
     bindE (int_plus 5 q2) (\<lambda>e1.
     bindE (int_of_quotient (size_mul 3 (size_sub cloudSize 10)) 4) (\<lambda>q3.
     bindE (int_plus 5 q3) (\<lambda>e2.
     Inr [e0, e1, e2, size_sub cloudSize 6]))))))"

text \<open>
  The loop body takes \<^verbatim>\<open>regionSize = ep - sp\<close> points starting at \<^verbatim>\<open>sp\<close>
  (\<^verbatim>\<open>setRegionBuffersFor(sp, ep-1)\<close>, and \<^verbatim>\<open>_laserCloud[sp + j]\<close> for
  \<^verbatim>\<open>j < regionSize\<close>): region \<open>k\<close> is the half-open index range from
  \<open>startPoints ! k\<close> to \<open>endPoints ! k\<close>.
\<close>

definition regionIndices :: "nat \<Rightarrow> nat \<Rightarrow> nat list" where
  "regionIndices sp ep = [sp ..< ep]"

definition regions :: "nat \<Rightarrow> error + (nat \<times> nat) list" where
  "regions cloudSize =
     bindE (startPoints cloudSize) (\<lambda>sps.
     bindE (endPoints cloudSize) (\<lambda>eps. Inr (zip sps eps)))"

text \<open>All scan indices that belong to some region, region after region.\<close>

definition regionCover :: "nat \<Rightarrow> error + nat list" where
  "regionCover cloudSize =
     bindE (regions cloudSize) (\<lambda>rs. Inr (concat (map (\<lambda>(sp, ep). regionIndices sp ep) rs)))"

text \<open>
  The tables as the partition they describe: every start after the first is one
  more than the end before it and the last end is \<^verbatim>\<open>cloudSize - 6\<close>, so each
  end point is the last index of its region. \<open>inclusiveCover\<close> is the indices of
  the four ranges read with the end point included.
\<close>

definition inclusiveCover :: "nat \<Rightarrow> error + nat list" where
  "inclusiveCover cloudSize =
     bindE (regions cloudSize) (\<lambda>rs. Inr (concat (map (\<lambda>(sp, ep). [sp ..< ep + 1]) rs)))"

subsection \<open>Floating-point values\<close>

text \<open>
  A \<^verbatim>\<open>float\<close> is an IEEE 754 single-precision value: a finite value, the
  negative zero, an infinity or NaN. \<open>Fin 0\<close> is the positive zero. A finite
  value is kept as the real it denotes; the arithmetic operations round their
  exact result to single precision (round to nearest, ties to even, with
  gradual underflow and overflow to infinity), assuming that \<^verbatim>\<open>float\<close>
  expressions are evaluated in single precision and not contracted.
\<close>

datatype flt = Fin real | NegZero | PInf | NInf | NaN

fun isfinite :: "flt \<Rightarrow> bool" where
  "isfinite (Fin a) = True"
| "isfinite NegZero = True"
| "isfinite _ = False"

fun fval :: "flt \<Rightarrow> real" where
  "fval (Fin a) = a"
| "fval _ = 0"

fun fsign :: "flt \<Rightarrow> bool" where
  "fsign (Fin a) = (a < 0)"
| "fsign NegZero = True"
| "fsign NInf = True"
| "fsign _ = False"

fun flt_less :: "flt \<Rightarrow> flt \<Rightarrow> bool" where
  "flt_less NaN _ = False"
| "flt_less _ NaN = False"
| "flt_less _ NInf = False"
| "flt_less PInf _ = False"
| "flt_less NInf _ = True"
| "flt_less _ PInf = True"
| "flt_less a b = (fval a < fval b)"

text \<open>Rounding of a real to the nearest integer, ties to the even one.\<close>

definition round_even :: "real \<Rightarrow> int" where
  "round_even y =
     (let f = \<lfloor>y\<rfloor> in
      if y - of_int f < 1 / 2 then f
      else if 1 / 2 < y - of_int f then f + 1
      else if even f then f else f + 1)"

text \<open>
  The binade of a magnitude: the largest exponent \<open>e\<close> between \<open>-126\<close> and \<open>127\<close>
  with \<open>2 powi e \<le> a\<close>, and \<open>-126\<close> for the subnormal magnitudes. A
  single-precision value of that binade is a multiple of \<open>2 powi (e - 23)\<close>.
\<close>

fun binade_below :: "nat \<Rightarrow> real \<Rightarrow> int" where
  "binade_below 0 a = - 126"
| "binade_below (Suc n) a =
     (if 2 powi (int (Suc n) - 126) \<le> a then int (Suc n) - 126 else binade_below n a)"

definition binade :: "real \<Rightarrow> int" where
  "binade a = binade_below 253 a"

definition signed_zero :: "bool \<Rightarrow> flt" where
  "signed_zero s = (if s then NegZero else Fin 0)"

definition signed_inf :: "bool \<Rightarrow> flt" where
  "signed_inf s = (if s then NInf else PInf)"

text \<open>
  Rounding of a magnitude \<open>m \<ge> 0\<close> with sign \<open>s\<close> (\<open>True\<close> for negative) to
  single precision: the nearest multiple of the unit of the binade, infinity
  when that is \<open>2 ^ 128\<close> or more, a signed zero when it is zero.
\<close>

definition round_to :: "bool \<Rightarrow> real \<Rightarrow> flt" where
  "round_to s m =
     (let e = binade m - 23; q = round_even (m / 2 powi e) in
      if (2 :: real) ^ 128 \<le> of_int q * 2 powi e then signed_inf s
      else if q = 0 then signed_zero s
      else Fin ((if s then - 1 else 1) * (of_int q * 2 powi e)))"

definition round32 :: "real \<Rightarrow> flt" where
  "round32 x = round_to (x < 0) \<bar>x\<bar>"

text \<open>
  The operations of IEEE 754 on single-precision values. A zero sum of two
  values of opposite sign is the positive zero; the sign of a product or
  quotient is the exclusive or of the signs.
\<close>

fun fneg :: "flt \<Rightarrow> flt" where
  "fneg (Fin a) = (if a = 0 then NegZero else Fin (- a))"
| "fneg NegZero = Fin 0"
| "fneg PInf = NInf"
| "fneg NInf = PInf"
| "fneg NaN = NaN"

definition fadd :: "flt \<Rightarrow> flt \<Rightarrow> flt" where
  "fadd a b =
     (if a = NaN \<or> b = NaN then NaN
      else if isfinite a \<and> isfinite b then
        (if fval a + fval b = 0 then signed_zero (fsign a \<and> fsign b)
         else round32 (fval a + fval b))
      else if isfinite a then b
      else if isfinite b then a
      else if a = b then a
      else NaN)"

definition fsub :: "flt \<Rightarrow> flt \<Rightarrow> flt" where
  "fsub a b = fadd a (fneg b)"

definition fmul :: "flt \<Rightarrow> flt \<Rightarrow> flt" where
  "fmul a b =
     (if a = NaN \<or> b = NaN then NaN
      else if isfinite a \<and> isfinite b then round_to (fsign a \<noteq> fsign b) \<bar>fval a * fval b\<bar>
      else if (isfinite a \<and> fval a = 0) \<or> (isfinite b \<and> fval b = 0) then NaN
      else signed_inf (fsign a \<noteq> fsign b))"

definition fdiv :: "flt \<Rightarrow> flt \<Rightarrow> flt" where
  "fdiv a b =
     (if a = NaN \<or> b = NaN then NaN
      else if isfinite a \<and> isfinite b then
        (if fval b = 0 then (if fval a = 0 then NaN else signed_inf (fsign a \<noteq> fsign b))
         else round_to (fsign a \<noteq> fsign b) \<bar>fval a / fval b\<bar>)
      else if isfinite a then signed_zero (fsign a \<noteq> fsign b)
      else if isfinite b then signed_inf (fsign a \<noteq> fsign b)
      else NaN)"

fun fsqrt :: "flt \<Rightarrow> flt" where
  "fsqrt (Fin a) = (if a < 0 then NaN else round_to False (sqrt a))"
| "fsqrt NegZero = NegZero"
| "fsqrt PInf = PInf"
| "fsqrt _ = NaN"

text \<open>
  \<^verbatim>\<open>atan2(y, x)\<close> of the C library: on the reals, and on single-precision values
  with the special cases of Annex F of the C standard (the sign of the result is
  the sign of \<open>y\<close>, also for a zero \<open>y\<close>). The value is rounded to single
  precision, where the source stores it in a \<^verbatim>\<open>float\<close>.
\<close>

definition atan2 :: "real \<Rightarrow> real \<Rightarrow> real" where
  "atan2 y x =
     (if 0 < x then arctan (y / x)
      else if x < 0 then (if 0 \<le> y then arctan (y / x) + pi else arctan (y / x) - pi)
      else if 0 < y then pi / 2
      else if y < 0 then - (pi / 2)
      else 0)"

definition atan2_magnitude :: "flt \<Rightarrow> flt \<Rightarrow> real" where
  "atan2_magnitude y x =
     (if isfinite y \<and> fval y = 0 then (if fsign x then pi else 0)
      else if \<not> isfinite y then
        (if isfinite x then pi / 2 else if fsign x then 3 * pi / 4 else pi / 4)
      else if \<not> isfinite x then (if fsign x then pi else 0)
      else atan2 \<bar>fval y\<bar> (fval x))"

definition fatan2 :: "flt \<Rightarrow> flt \<Rightarrow> flt" where
  "fatan2 y x =
     (if y = NaN \<or> x = NaN then NaN else round_to (fsign y) (atan2_magnitude y x))"

text \<open>
  A value in the range of single precision: a finite value other than zero has
  magnitude at least \<open>2 powi (- 149)\<close>.
\<close>

definition float_range :: "flt \<Rightarrow> bool" where
  "float_range f = (case f of Fin a \<Rightarrow> a = 0 \<or> 2 powi (- 149) \<le> \<bar>a\<bar> | _ \<Rightarrow> True)"

subsection \<open>Points, labels and parameters\<close>

text \<open>
  \<^verbatim>\<open>pcl::PointXYZ\<close>, and \<^verbatim>\<open>pcl::PointXYZI\<close> without its intensity, which
  neither function assigns.
\<close>

record point =
  px :: flt
  py :: flt
  pz :: flt

text \<open>
  Modelled from the spec: the header that declares \<^verbatim>\<open>enum PointLabel\<close> is not
  among the sources. The classes are ordered by sharpness, the flat class below
  the default less-flat class and the two corner classes above it.
\<close>

datatype PointLabel = CORNER_SHARP | CORNER_LESS_SHARP | SURFACE_LESS_FLAT | SURFACE_FLAT

fun labelValue :: "PointLabel \<Rightarrow> int" where
  "labelValue CORNER_SHARP = 2"
| "labelValue CORNER_LESS_SHARP = 1"
| "labelValue SURFACE_LESS_FLAT = 0"
| "labelValue SURFACE_FLAT = - 1"

text \<open>
  The fields of \<^verbatim>\<open>_config\<close> that the two functions read. The header that
  declares \<^verbatim>\<open>RegistrationParams\<close> is not among the sources; the counters they are
  compared with are \<^verbatim>\<open>int\<close>s in the source, so the quotas are integers.
\<close>

record RegistrationParams =
  scanPeriod :: real
  nFeatureRegions :: nat
  maxCornerSharp :: int
  maxCornerLessSharp :: int
  maxSurfaceFlat :: int
  lessFlatFilterSize :: real
  surfaceCurvatureThreshold :: flt

subsection \<open>The collaborators of the two functions\<close>

text \<open>
  Modelled from the spec: the base class \<^verbatim>\<open>ScanRegistration\<close>, the IMU code
  and PCL's voxel grid are not among the sources. What they compute is a
  parameter of the model:
  \<^item> \<open>scanBuffers cloud\<close>: the neighbor-picked flags that
    \<^verbatim>\<open>setScanBuffersFor(0, cloudSize)\<close> leaves for the scan;
  \<^item> \<open>curvatureBuffer cloud sp ep\<close> and \<open>sortBuffer cloud sp ep\<close>: the curvature per
    region index and the curvature-ascending scan indices that
    \<^verbatim>\<open>setRegionBuffersFor(sp, ep)\<close> leaves for the range;
  \<^item> \<open>neighborhood cloud idx\<close>: the neighbours that \<^verbatim>\<open>markAsPicked\<close> marks
    together with the index itself;
  \<^item> \<open>downSize leaf cloud\<close>: the voxel-grid filter;
  \<^item> \<open>hasIMUData\<close> and \<open>transformToStartIMU relTime p\<close>: the motion
    undistortion, \<^verbatim>\<open>setIMUTransformFor(relTime)\<close> followed by
    \<^verbatim>\<open>transformToStartIMU(point)\<close>.
\<close>

record capabilities =
  scanBuffers :: "point list \<Rightarrow> int list"
  curvatureBuffer :: "point list \<Rightarrow> nat \<Rightarrow> nat \<Rightarrow> flt list"
  sortBuffer :: "point list \<Rightarrow> nat \<Rightarrow> nat \<Rightarrow> nat list"
  neighborhood :: "point list \<Rightarrow> nat \<Rightarrow> nat list"
  downSize :: "real \<Rightarrow> point list \<Rightarrow> point list"
  hasIMUData :: bool
  transformToStartIMU :: "real \<Rightarrow> point \<Rightarrow> point"

subsection \<open>The buffers of one extractFeatures call\<close>

text \<open>
  The region buffers, the neighbor-picked flags of the scan, and the points the
  call pushes to the four clouds. \<^verbatim>\<open>_laserCloud\<close> does not change during the
  call, so a pushed point \<^verbatim>\<open>_laserCloud[scanIdx]\<close> is recorded as its scan index
  (the read is checked against the cloud size where it happens); \<open>cloudPoints\<close>
  gives the points.
\<close>

record extraction =
  regionCurvature :: "flt list"
  regionLabel :: "PointLabel list"
  regionSortIndices :: "nat list"
  scanNeighborPicked :: "int list"
  sharpPicks :: "nat list"
  lessSharpPicks :: "nat list"
  flatPicks :: "nat list"
  lessFlatPicks :: "nat list"

definition cloudPoints :: "point list \<Rightarrow> nat list \<Rightarrow> point list" where
  "cloudPoints cloud picks = map (\<lambda>i. cloud ! i) picks"

text \<open>\<^verbatim>\<open>v[i]\<close> read, and \<^verbatim>\<open>v[i] = x\<close>, on a \<^verbatim>\<open>std::vector\<close>.\<close>

definition readAt :: "'a list \<Rightarrow> nat \<Rightarrow> error + 'a" where
  "readAt v i = (if i < length v then Inr (v ! i) else Inl OutOfBounds)"

definition writeAt :: "'a list \<Rightarrow> nat \<Rightarrow> 'a \<Rightarrow> error + 'a list" where
  "writeAt v i x = (if i < length v then Inr (v[i := x]) else Inl OutOfBounds)"

text \<open>
  Modelled from the spec: \<^verbatim>\<open>markAsPicked(scanIdx, scanIdx)\<close> marks the accepted
  index and a bounded neighbourhood of it as neighbor-picked.
\<close>

definition markAsPicked :: "(nat \<Rightarrow> nat list) \<Rightarrow> nat \<Rightarrow> int list \<Rightarrow> int list" where
  "markAsPicked nbhd idx picked = fold (\<lambda>k p. p[k := 1]) (idx # nbhd idx) picked"

text \<open>
  Modelled from the spec: \<^verbatim>\<open>setRegionBuffersFor(sp, ep)\<close> fills the curvature
  and sort buffers for the range and gives every region index the default label.
\<close>

definition setRegionBuffersFor :: "capabilities \<Rightarrow> point list \<Rightarrow> nat \<Rightarrow> nat \<Rightarrow> extraction \<Rightarrow> extraction" where
  "setRegionBuffersFor cap cloud sp ep b =
     b\<lparr>regionCurvature := curvatureBuffer cap cloud sp ep,
       regionSortIndices := sortBuffer cap cloud sp ep,
       regionLabel := replicate (length (curvatureBuffer cap cloud sp ep)) SURFACE_LESS_FLAT\<rparr>"

subsection \<open>extractFeatures: the corner pass\<close>

text \<open>
  \<^verbatim>\<open>
  int largestPickedNum = 0;
  for (size_t j = regionSize-1; j > 0 && largestPickedNum < _config.maxCornerLessSharp; j--) {
    size_t scanIdx = _regionSortIndices[j];
    size_t regionIdx = scanIdx - sp;
    if (_scanNeighborPicked[scanIdx] == 0 &&
        _regionCurvature[regionIdx] > _config.surfaceCurvatureThreshold) {
      largestPickedNum++;
      if (largestPickedNum <= _config.maxCornerSharp) {
        _regionLabel[regionIdx] = CORNER_SHARP;
        _cornerPointsSharp.push_back(_laserCloud[scanIdx]);
      } else if (largestPickedNum <= _config.maxCornerSharp*10) {
        _regionLabel[regionIdx] = CORNER_LESS_SHARP;
        _cornerPointsLessSharp.push_back(_laserCloud[scanIdx]);
      }
      else {
        break;
      }
      markAsPicked(scanIdx, scanIdx);
    }
  }
  \<close>
  The loop state is the counter and the buffers. The body says whether the loop
  goes on or breaks.
\<close>

datatype ctl = Continue | Break

definition cornerBody ::
  "RegistrationParams \<Rightarrow> (nat \<Rightarrow> nat list) \<Rightarrow> nat \<Rightarrow> nat \<Rightarrow> nat \<Rightarrow> int \<times> extraction
     \<Rightarrow> error + (ctl \<times> int \<times> extraction)" where
  "cornerBody cfg nbhd cloudSize sp j s =
     (case s of (largestPickedNum, b) \<Rightarrow>
      bindE (readAt (regionSortIndices b) j) (\<lambda>scanIdx.
      bindE (readAt (scanNeighborPicked b) scanIdx) (\<lambda>picked.
      if picked \<noteq> 0 then Inr (Continue, largestPickedNum, b)
      else
      bindE (readAt (regionCurvature b) (size_sub scanIdx sp)) (\<lambda>c.
      if \<not> flt_less (surfaceCurvatureThreshold cfg) c then Inr (Continue, largestPickedNum, b)
      else if largestPickedNum + 1 \<le> maxCornerSharp cfg then
        bindE (writeAt (regionLabel b) (size_sub scanIdx sp) CORNER_SHARP) (\<lambda>labels.
        if scanIdx < cloudSize then
          Inr (Continue, largestPickedNum + 1,
            b\<lparr>regionLabel := labels, sharpPicks := sharpPicks b @ [scanIdx],
              scanNeighborPicked := markAsPicked nbhd scanIdx (scanNeighborPicked b)\<rparr>)
        else Inl OutOfBounds)
      else if largestPickedNum + 1 \<le> maxCornerSharp cfg * 10 then
        bindE (writeAt (regionLabel b) (size_sub scanIdx sp) CORNER_LESS_SHARP) (\<lambda>labels.
        if scanIdx < cloudSize then
          Inr (Continue, largestPickedNum + 1,
            b\<lparr>regionLabel := labels, lessSharpPicks := lessSharpPicks b @ [scanIdx],
              scanNeighborPicked := markAsPicked nbhd scanIdx (scanNeighborPicked b)\<rparr>)
        else Inl OutOfBounds)
      else Inr (Break, largestPickedNum + 1, b)))))"

function cornerLoop ::
  "RegistrationParams \<Rightarrow> (nat \<Rightarrow> nat list) \<Rightarrow> nat \<Rightarrow> nat \<Rightarrow> nat \<Rightarrow> int \<times> extraction
     \<Rightarrow> error + (int \<times> extraction)" where
  "cornerLoop cfg nbhd cloudSize sp j s =
     (if 0 < j \<and> fst s < maxCornerLessSharp cfg then
        (case cornerBody cfg nbhd cloudSize sp j s of
           Inl e \<Rightarrow> Inl e
         | Inr (Break, s') \<Rightarrow> Inr s'
         | Inr (Continue, s') \<Rightarrow> cornerLoop cfg nbhd cloudSize sp (j - 1) s')
      else Inr s)"
  by pat_completeness auto
termination
  by (relation "measure (\<lambda>(cfg, nbhd, cloudSize, sp, j, s). j)") auto

declare cornerLoop.simps [simp del]

subsection \<open>extractFeatures: the surface pass\<close>

text \<open>
  \<^verbatim>\<open>
  int smallestPickedNum = 0;
  for (size_t j = 0; j < regionSize && smallestPickedNum < _config.maxSurfaceFlat; j++) {
    size_t scanIdx = _regionSortIndices[j];
    size_t regionIdx = scanIdx - sp;
    if (_scanNeighborPicked[scanIdx] == 0 &&
        _regionCurvature[regionIdx] < _config.surfaceCurvatureThreshold) {
      smallestPickedNum++;
      _regionLabel[regionIdx] = SURFACE_FLAT;
      _surfacePointsFlat.push_back(_laserCloud[scanIdx]);
      markAsPicked(scanIdx, scanIdx);
    }
  }
  \<close>
\<close>

definition surfaceBody ::
  "RegistrationParams \<Rightarrow> (nat \<Rightarrow> nat list) \<Rightarrow> nat \<Rightarrow> nat \<Rightarrow> nat \<Rightarrow> int \<times> extraction
     \<Rightarrow> error + (int \<times> extraction)" where
  "surfaceBody cfg nbhd cloudSize sp j s =
     (case s of (smallestPickedNum, b) \<Rightarrow>
      bindE (readAt (regionSortIndices b) j) (\<lambda>scanIdx.
      bindE (readAt (scanNeighborPicked b) scanIdx) (\<lambda>picked.
      if picked \<noteq> 0 then Inr (smallestPickedNum, b)
      else
      bindE (readAt (regionCurvature b) (size_sub scanIdx sp)) (\<lambda>c.
      if \<not> flt_less c (surfaceCurvatureThreshold cfg) then Inr (smallestPickedNum, b)
      else
        bindE (writeAt (regionLabel b) (size_sub scanIdx sp) SURFACE_FLAT) (\<lambda>labels.
        if scanIdx < cloudSize then
          Inr (smallestPickedNum + 1,
            b\<lparr>regionLabel := labels, flatPicks := flatPicks b @ [scanIdx],
              scanNeighborPicked := markAsPicked nbhd scanIdx (scanNeighborPicked b)\<rparr>)
        else Inl OutOfBounds)))))"

function surfaceLoop ::
  "RegistrationParams \<Rightarrow> (nat \<Rightarrow> nat list) \<Rightarrow> nat \<Rightarrow> nat \<Rightarrow> nat \<Rightarrow> nat \<Rightarrow> int \<times> extraction
     \<Rightarrow> error + (int \<times> extraction)" where
  "surfaceLoop cfg nbhd cloudSize sp regionSize j s =
     (if j < regionSize \<and> fst s < maxSurfaceFlat cfg then
        (case surfaceBody cfg nbhd cloudSize sp j s of
           Inl e \<Rightarrow> Inl e
         | Inr s' \<Rightarrow> surfaceLoop cfg nbhd cloudSize sp regionSize (j + 1) s')
      else Inr s)"
  by pat_completeness auto
termination
  by (relation "measure (\<lambda>(cfg, nbhd, cloudSize, sp, regionSize, j, s). regionSize - j)") auto

declare surfaceLoop.simps [simp del]

subsection \<open>extractFeatures: the less-flat collection\<close>

text \<open>
  \<^verbatim>\<open>
  for (size_t j = 0; j < regionSize; j++) {
    if (_regionLabel[j] <= SURFACE_LESS_FLAT) {
      surfPointsLessFlatScan->push_back(_laserCloud[sp + j]);
    }
  }
  \<close>
\<close>

definition size_add :: "nat \<Rightarrow> nat \<Rightarrow> nat" where
  "size_add a b = (a + b) mod 2 ^ 64"

function lessFlatLoop :: "nat \<Rightarrow> nat \<Rightarrow> nat \<Rightarrow> nat \<Rightarrow> extraction \<Rightarrow> error + extraction" where
  "lessFlatLoop cloudSize sp regionSize j b =
     (if j < regionSize then
        (case readAt (regionLabel b) j of
           Inl e \<Rightarrow> Inl e
         | Inr l \<Rightarrow>
             if labelValue l \<le> labelValue SURFACE_LESS_FLAT then
               (if size_add sp j < cloudSize then
                  lessFlatLoop cloudSize sp regionSize (j + 1)
                    (b\<lparr>lessFlatPicks := lessFlatPicks b @ [size_add sp j]\<rparr>)
                else Inl OutOfBounds)
             else lessFlatLoop cloudSize sp regionSize (j + 1) b)
      else Inr b)"
  by pat_completeness auto
termination
  by (relation "measure (\<lambda>(cloudSize, sp, regionSize, j, b). regionSize - j)") auto

declare lessFlatLoop.simps [simp del]

subsection \<open>extractFeatures: one region, and the loop over the regions\<close>

text \<open>
  The body of the region loop after \<^verbatim>\<open>setRegionBuffersFor(sp, ep-1)\<close>:
  \<^verbatim>\<open>regionSize = ep - sp\<close>, the corner pass from \<^verbatim>\<open>j = regionSize-1\<close>, the
  surface pass and the less-flat collection.
\<close>

definition extractRegion ::
  "RegistrationParams \<Rightarrow> (nat \<Rightarrow> nat list) \<Rightarrow> nat \<Rightarrow> nat \<Rightarrow> nat \<Rightarrow> extraction \<Rightarrow> error + extraction" where
  "extractRegion cfg nbhd cloudSize sp ep b =
     bindE (cornerLoop cfg nbhd cloudSize sp (size_sub (size_sub ep sp) 1) (0, b)) (\<lambda>s1.
     bindE (surfaceLoop cfg nbhd cloudSize sp (size_sub ep sp) 0 (0, snd s1)) (\<lambda>s2.
     lessFlatLoop cloudSize sp (size_sub ep sp) 0 (snd s2)))"

text \<open>
  \<^verbatim>\<open>
  for (size_t i = 0; i < _config.nFeatureRegions; i++) {
    size_t sp = startPoints[i];
    size_t ep = endPoints[i];
    size_t regionSize = ep - sp;
    setRegionBuffersFor(sp, ep-1);
    ...
  }
  \<close>
  The two tables have four entries; reading a fifth is out of bounds.
\<close>

function regionLoop ::
  "RegistrationParams \<Rightarrow> capabilities \<Rightarrow> point list \<Rightarrow> nat list \<Rightarrow> nat list \<Rightarrow> nat \<Rightarrow> extraction
     \<Rightarrow> error + extraction" where
  "regionLoop cfg cap cloud sps eps i b =
     (if i < nFeatureRegions cfg then
        (case readAt sps i of
           Inl e \<Rightarrow> Inl e
         | Inr sp \<Rightarrow>
            (case readAt eps i of
               Inl e \<Rightarrow> Inl e
             | Inr ep \<Rightarrow>
                (case extractRegion cfg (neighborhood cap cloud) (length cloud) sp ep
                        (setRegionBuffersFor cap cloud sp (size_sub ep 1) b) of
                   Inl e \<Rightarrow> Inl e
                 | Inr b' \<Rightarrow> regionLoop cfg cap cloud sps eps (i + 1) b')))
      else Inr b)"
  by pat_completeness auto
termination
  by (relation "measure (\<lambda>(cfg, cap, cloud, sps, eps, i, b). nFeatureRegions cfg - i)") auto

declare regionLoop.simps [simp del]

subsection \<open>The registration state and extractFeatures\<close>

text \<open>
  The members of the class that \<^verbatim>\<open>process\<close> and \<^verbatim>\<open>extractFeatures\<close> read
  or write. The region buffers are refilled by \<^verbatim>\<open>setRegionBuffersFor\<close> before
  each use, so they are not kept between calls.
\<close>

record ScanRegistration =
  laserRotDir :: int
  sweepStart :: real
  laserCloud :: "point list"
  cornerPointsSharp :: "point list"
  cornerPointsLessSharp :: "point list"
  surfacePointsFlat :: "point list"
  surfacePointsLessFlat :: "point list"

text \<open>
  The buffers at the start of the region loop: \<^verbatim>\<open>setScanBuffersFor(0, cloudSize)\<close>
  has reset the neighbor-picked flags, nothing has been pushed yet.
\<close>

definition initialExtraction :: "capabilities \<Rightarrow> point list \<Rightarrow> extraction" where
  "initialExtraction cap cloud =
     \<lparr>regionCurvature = [], regionLabel = [], regionSortIndices = [],
      scanNeighborPicked = scanBuffers cap cloud,
      sharpPicks = [], lessSharpPicks = [], flatPicks = [], lessFlatPicks = []\<rparr>"

text \<open>The tables, \<^verbatim>\<open>setScanBuffersFor(0, cloudSize)\<close> and the region loop.\<close>

definition extractScan :: "RegistrationParams \<Rightarrow> capabilities \<Rightarrow> point list \<Rightarrow> error + extraction" where
  "extractScan cfg cap cloud =
     bindE (startPoints (length cloud)) (\<lambda>sps.
     bindE (endPoints (length cloud)) (\<lambda>eps.
     regionLoop cfg cap cloud sps eps 0 (initialExtraction cap cloud)))"

text \<open>
  \<^verbatim>\<open>extractFeatures\<close>: the points picked by the region loop go to the three
  feature clouds; the less-flat points of the scan go through the voxel grid
  (\<^verbatim>\<open>downSizeFilter\<close> with leaf size \<^verbatim>\<open>lessFlatFilterSize\<close>) and are appended
  to \<^verbatim>\<open>_surfacePointsLessFlat\<close>.
\<close>

definition extractFeatures ::
  "RegistrationParams \<Rightarrow> capabilities \<Rightarrow> ScanRegistration \<Rightarrow> error + ScanRegistration" where
  "extractFeatures cfg cap st =
     bindE (extractScan cfg cap (laserCloud st)) (\<lambda>b.
     Inr (st\<lparr>cornerPointsSharp :=
                cornerPointsSharp st @ cloudPoints (laserCloud st) (sharpPicks b),
             cornerPointsLessSharp :=
                cornerPointsLessSharp st @ cloudPoints (laserCloud st) (lessSharpPicks b),
             surfacePointsFlat :=
                surfacePointsFlat st @ cloudPoints (laserCloud st) (flatPicks b),
             surfacePointsLessFlat :=
                surfacePointsLessFlat st @
                downSize cap (lessFlatFilterSize cfg)
                  (cloudPoints (laserCloud st) (lessFlatPicks b))\<rparr>))"

subsection \<open>process\<close>

text \<open>
  Modelled from the spec: \<^verbatim>\<open>calcPointDistance\<close> (math_utils.h, not among the
  sources) is the range of a point, its Euclidean norm.
\<close>

definition calcPointDistance :: "point \<Rightarrow> flt" where
  "calcPointDistance p =
     fsqrt (fadd (fadd (fmul (px p) (px p)) (fmul (py p) (py p))) (fmul (pz p) (pz p)))"

text \<open>
  \<^verbatim>\<open>
  float rangeFirst = calcPointDistance(laserPointFirst);
  laserPointFirst.x /= rangeFirst;
  laserPointFirst.y /= rangeFirst;
  laserPointFirst.z /= rangeFirst;
  \<close>
\<close>

definition normalized :: "point \<Rightarrow> point" where
  "normalized p =
     \<lparr>px = fdiv (px p) (calcPointDistance p),
      py = fdiv (py p) (calcPointDistance p),
      pz = fdiv (pz p) (calcPointDistance p)\<rparr>"

text \<open>
  \<^verbatim>\<open>
  float laserAngle = atan2(laserPointLast.x - laserPointFirst.x,
                           laserPointLast.y - laserPointFirst.y);
  \<close>
  on the two normalized points.
\<close>

definition laserAngle :: "point \<Rightarrow> point \<Rightarrow> flt" where
  "laserAngle laserPointFirst laserPointLast =
     fatan2 (fsub (px (normalized laserPointLast)) (px (normalized laserPointFirst)))
            (fsub (py (normalized laserPointLast)) (py (normalized laserPointFirst)))"

text \<open>
  \<^verbatim>\<open>
  laserAngle * _laserRotDir < 0 &&
    scanTime.toSec() - _sweepStart.toSec() > _config.scanPeriod
  \<close>
\<close>

definition newSweepCondition :: "RegistrationParams \<Rightarrow> ScanRegistration \<Rightarrow> flt \<Rightarrow> real \<Rightarrow> bool" where
  "newSweepCondition cfg st angle scanTime =
     (flt_less (fmul angle (Fin (of_int (laserRotDir st)))) (Fin 0) \<and>
      scanTime - sweepStart st > scanPeriod cfg)"

text \<open>
  Modelled from the spec: \<^verbatim>\<open>reset(scanTime, newSweep)\<close> of the base class is not
  among the sources. The sharp, less-sharp and flat clouds are reset for every
  scan; at a sweep boundary the sweep start time is set to the scan time and the
  less-flat accumulator is cleared.
\<close>

definition reset :: "real \<Rightarrow> bool \<Rightarrow> ScanRegistration \<Rightarrow> ScanRegistration" where
  "reset scanTime newSweep st =
     (let st' = st\<lparr>cornerPointsSharp := [], cornerPointsLessSharp := [], surfacePointsFlat := []\<rparr>
      in if newSweep then st'\<lparr>sweepStart := scanTime, surfacePointsLessFlat := []\<rparr> else st')"

text \<open>
  The first part of \<^verbatim>\<open>process\<close>, up to \<^verbatim>\<open>reset(scanTime, newSweep)\<close>: the
  reads of \<^verbatim>\<open>laserCloudIn.points[0]\<close> and \<^verbatim>\<open>laserCloudIn.points[cloudSize - 1]\<close>,
  the angle, the sweep decision with \<^verbatim>\<open>_laserRotDir *= -1\<close>, and the reset. It
  returns \<^verbatim>\<open>newSweep\<close> with the state.
\<close>

definition detectSweep ::
  "RegistrationParams \<Rightarrow> ScanRegistration \<Rightarrow> point list \<Rightarrow> real \<Rightarrow> error + (bool \<times> ScanRegistration)" where
  "detectSweep cfg st laserCloudIn scanTime =
     bindE (readAt laserCloudIn 0) (\<lambda>laserPointFirst.
     bindE (readAt laserCloudIn (size_sub (length laserCloudIn) 1)) (\<lambda>laserPointLast.
     if newSweepCondition cfg st (laserAngle laserPointFirst laserPointLast) scanTime
     then Inr (True, reset scanTime True (st\<lparr>laserRotDir := laserRotDir st * (- 1)\<rparr>))
     else Inr (False, reset scanTime False st)))"

text \<open>
  The loop over the input cloud:
  \<^verbatim>\<open>
  point.x = laserCloudIn[i].y;
  point.y = laserCloudIn[i].z;
  point.z = laserCloudIn[i].x;
  if (!pcl_isfinite(point.x) || !pcl_isfinite(point.y) || !pcl_isfinite(point.z)) continue;
  if (point.x * point.x + point.y * point.y + point.z * point.z < 0.0001) continue;
  float relTime = 0;
  if (hasIMUData()) {
    setIMUTransformFor(relTime);
    transformToStartIMU(point);
  }
  laserCloudScan.push_back(point);
  \<close>
\<close>

definition remapAxes :: "point \<Rightarrow> point" where
  "remapAxes p = \<lparr>px = py p, py = pz p, pz = px p\<rparr>"

text \<open>
  The literal \<^verbatim>\<open>0.0001\<close> is a \<^verbatim>\<open>double\<close>: the double nearest to 1/10000. The
  sum of the squares is computed in single precision and converted to
  \<^verbatim>\<open>double\<close>, without change of value, for the comparison.
\<close>

definition double_0_0001 :: real where
  "double_0_0001 = 7378697629483821 / 2 ^ 66"

definition skipped :: "point \<Rightarrow> bool" where
  "skipped p =
     (\<not> isfinite (px p) \<or> \<not> isfinite (py p) \<or> \<not> isfinite (pz p) \<or>
      flt_less (fadd (fadd (fmul (px p) (px p)) (fmul (py p) (py p))) (fmul (pz p) (pz p)))
        (Fin double_0_0001))"

definition relTime :: real where
  "relTime = 0"

fun extractValid :: "capabilities \<Rightarrow> point list \<Rightarrow> point list \<Rightarrow> point list" where
  "extractValid cap [] laserCloudScan = laserCloudScan"
| "extractValid cap (p # rest) laserCloudScan =
     (if skipped (remapAxes p) then extractValid cap rest laserCloudScan
      else if hasIMUData cap then
        extractValid cap rest (laserCloudScan @ [transformToStartIMU cap relTime (remapAxes p)])
      else extractValid cap rest (laserCloudScan @ [remapAxes p]))"

text \<open>
  \<^verbatim>\<open>process\<close>: the sweep decision and reset, the valid points of the batch as
  the new \<^verbatim>\<open>_laserCloud\<close>, then \<^verbatim>\<open>extractFeatures\<close>. \<^verbatim>\<open>publishResult\<close>
  emits the five clouds of the resulting state.
\<close>

definition process ::
  "RegistrationParams \<Rightarrow> capabilities \<Rightarrow> ScanRegistration \<Rightarrow> point list \<Rightarrow> real
     \<Rightarrow> error + ScanRegistration" where
  "process cfg cap st laserCloudIn scanTime =
     bindE (detectSweep cfg st laserCloudIn scanTime) (\<lambda>r.
     extractFeatures cfg cap ((snd r)\<lparr>laserCloud := extractValid cap laserCloudIn []\<rparr>))"

definition published :: "ScanRegistration \<Rightarrow> point list \<times> point list \<times> point list \<times> point list \<times> point list" where
  "published st =
     (laserCloud st, cornerPointsSharp st, cornerPointsLessSharp st, surfacePointsFlat st,
      surfacePointsLessFlat st)"

subsection \<open>Example inputs\<close>

text \<open>
  The parameters are the defaults of the registration node. The example
  collaborators take the curvature of a scan index as a parameter, leave the scan
  indices of a range in scan order (the stable curvature-ascending order when the
  curvature does not decrease along the range), mark no neighbours, let the
  voxel grid keep every point (a leaf smaller than the distance between any two
  points) and have no IMU data.
\<close>

definition exampleParams :: RegistrationParams where
  "exampleParams =
     \<lparr>scanPeriod = 1 / 10, nFeatureRegions = 4, maxCornerSharp = 2, maxCornerLessSharp = 20,
      maxSurfaceFlat = 4, lessFlatFilterSize = 1 / 5, surfaceCurvatureThreshold = Fin (1 / 10)\<rparr>"

definition exampleCap :: "(nat \<Rightarrow> flt) \<Rightarrow> capabilities" where
  "exampleCap curv =
     \<lparr>scanBuffers = (\<lambda>cloud. replicate (length cloud) 0),
      curvatureBuffer = (\<lambda>cloud sp ep. map curv [sp ..< ep + 1]),
      sortBuffer = (\<lambda>cloud sp ep. [sp ..< ep + 1]),
      neighborhood = (\<lambda>cloud idx. []),
      downSize = (\<lambda>leaf cloud. cloud),
      hasIMUData = False,
      transformToStartIMU = (\<lambda>t p. p)\<rparr>"

definition examplePoint :: "nat \<Rightarrow> point" where
  "examplePoint i = \<lparr>px = Fin (real i), py = Fin 1, pz = Fin 0\<rparr>"

definition exampleCloud :: "nat \<Rightarrow> point list" where
  "exampleCloud n = map examplePoint [0 ..< n]"

text \<open>
  The state the constructor leaves (\<^verbatim>\<open>_laserRotDir(1)\<close>, a zero sweep start
  time, empty clouds), and a raw batch whose valid points are \<open>exampleCloud\<close>.
\<close>

definition initialState :: ScanRegistration where
  "initialState =
     \<lparr>laserRotDir = 1, sweepStart = 0, laserCloud = [], cornerPointsSharp = [],
      cornerPointsLessSharp = [], surfacePointsFlat = [], surfacePointsLessFlat = []\<rparr>"

definition exampleRaw :: "nat \<Rightarrow> point" where
  "exampleRaw i = \<lparr>px = Fin 0, py = Fin (real i), pz = Fin 1\<rparr>"

definition exampleBatch :: "nat \<Rightarrow> point list" where
  "exampleBatch n = map exampleRaw [0 ..< n]"

subsection \<open>The corner pass as the specification words it\<close>

text \<open>
  For comparison with \<open>cornerLoop\<close>: the same body, run over a list of positions
  of the sort buffer. The specification's corner pass runs it over all positions
  of the region, \<open>rev [0 ..< regionSize]\<close>, from the highest-curvature end
  downward.
\<close>

fun cornerPassOver ::
  "RegistrationParams \<Rightarrow> (nat \<Rightarrow> nat list) \<Rightarrow> nat \<Rightarrow> nat \<Rightarrow> nat list \<Rightarrow> int \<times> extraction
     \<Rightarrow> error + (int \<times> extraction)" where
  "cornerPassOver cfg nbhd cloudSize sp [] s = Inr s"
| "cornerPassOver cfg nbhd cloudSize sp (j # js) s =
     (if fst s < maxCornerLessSharp cfg then
        (case cornerBody cfg nbhd cloudSize sp j s of
           Inl e \<Rightarrow> Inl e
         | Inr (Break, s') \<Rightarrow> Inr s'
         | Inr (Continue, s') \<Rightarrow> cornerPassOver cfg nbhd cloudSize sp js s')
      else Inr s)"

definition cornerPassSpec ::
  "RegistrationParams \<Rightarrow> (nat \<Rightarrow> nat list) \<Rightarrow> nat \<Rightarrow> nat \<Rightarrow> nat \<Rightarrow> int \<times> extraction
     \<Rightarrow> error + (int \<times> extraction)" where
  "cornerPassSpec cfg nbhd cloudSize sp regionSize s =
     cornerPassOver cfg nbhd cloudSize sp (rev [0 ..< regionSize]) s"

subsection \<open>The specification's words for the sweep signal and for malformed points\<close>

text \<open>
  The sign of the angle disagrees with the rotation direction: the angle is
  negative and the direction positive, or the angle is positive and the
  direction negative. NaN has no sign.
\<close>

definition signDisagrees :: "flt \<Rightarrow> int \<Rightarrow> bool" where
  "signDisagrees angle dir =
     ((flt_less angle (Fin 0) \<and> 0 < dir) \<or> (flt_less (Fin 0) angle \<and> dir < 0))"

text \<open>
  The squared norm of a point as single-precision arithmetic gives it: the
  squares and the two sums, from left to right, each rounded.
\<close>

definition squaredNorm :: "point \<Rightarrow> flt" where
  "squaredNorm p = fadd (fadd (fmul (px p) (px p)) (fmul (py p) (py p))) (fmul (pz p) (pz p))"

text \<open>
  A malformed point of the raw batch: after the axis remapping a coordinate is
  not finite, or the single-precision squared norm is below 0.0001.
\<close>

definition malformed :: "point \<Rightarrow> bool" where
  "malformed p =
     (\<not> isfinite (px (remapAxes p)) \<or> \<not> isfinite (py (remapAxes p)) \<or>
      \<not> isfinite (pz (remapAxes p)) \<or>
      flt_less (squaredNorm (remapAxes p)) (Fin double_0_0001))"

text \<open>
  The squared norm of a point over the reals, for a point with finite
  coordinates.
\<close>

definition exactSquaredNorm :: "point \<Rightarrow> real" where
  "exactSquaredNorm p = (fval (px p))\<^sup>2 + (fval (py p))\<^sup>2 + (fval (pz p))\<^sup>2"

text \<open>
  Example collaborators with IMU data: the undistortion shifts a point along x
  in proportion to its relative time.
\<close>

definition exampleIMU :: capabilities where
  "exampleIMU =
     (exampleCap (\<lambda>i. Fin 0))
       \<lparr>hasIMUData := True, transformToStartIMU := (\<lambda>t p. p\<lparr>px := fadd (px p) (Fin t)\<rparr>)\<rparr>"

text \<open>
  Raw points for the sweep examples: \<open>tinyPoint\<close> and \<open>tinyBackPoint\<close> are finite
  but below the norm threshold, the others are unit vectors.
\<close>

definition tinyPoint :: point where
  "tinyPoint = \<lparr>px = Fin (1 / 1024), py = Fin 0, pz = Fin 0\<rparr>"

definition tinyBackPoint :: point where
  "tinyBackPoint = \<lparr>px = Fin (- (1 / 1024)), py = Fin 0, pz = Fin 0\<rparr>"

text \<open>
  A raw point with single-precision coordinates whose squared norm over the
  reals is just below 1/10000, and a batch that holds it among valid points.
\<close>

definition edgePoint :: point where
  "edgePoint = \<lparr>px = Fin 0, py = Fin (1 / 128), pz = Fin (13404985 / 2147483648)\<rparr>"

definition edgeBatch :: "point list" where
  "edgeBatch = take 10 (exampleBatch 19) @ edgePoint # drop 10 (exampleBatch 19)"

text \<open>A raw point with finite coordinates whose squares overflow single precision.\<close>

definition hugePoint :: point where
  "hugePoint = \<lparr>px = Fin (2 ^ 127), py = Fin (2 ^ 127), pz = Fin 0\<rparr>"

definition backPoint :: point where
  "backPoint = \<lparr>px = Fin (- 1), py = Fin 0, pz = Fin 0\<rparr>"

definition frontPoint :: point where
  "frontPoint = \<lparr>px = Fin 1, py = Fin 0, pz = Fin 0\<rparr>"

definition sidePoint :: point where
  "sidePoint = \<lparr>px = Fin 0, py = Fin 1, pz = Fin 0\<rparr>"

definition nanPoint :: point where
  "nanPoint = \<lparr>px = NaN, py = Fin 1, pz = Fin 1\<rparr>"

text \<open>Example collaborators for a scan whose points all have curvature zero.\<close>

definition flatCap :: capabilities where
  "flatCap = exampleCap (\<lambda>i. Fin 0)"

subsection \<open>Invariants of the extraction\<close>





text \<open>
  What the region buffer provider owes the region loop: for a range that keeps
  the margin of five points, a curvature buffer, and with it a label buffer,
  with one entry per index of the range.
\<close>

definition regionBuffersSized :: "capabilities \<Rightarrow> point list \<Rightarrow> bool" where
  "regionBuffersSized cap cloud =
     (\<forall>sp ep. 5 \<le> sp \<and> sp \<le> ep \<and> ep \<le> length cloud \<longrightarrow>
        length (curvatureBuffer cap cloud sp (ep - 1)) = ep - sp)"


text \<open>
  A raw batch of 19 valid points whose first and last point give a negative
  bearing, and a state in the middle of a sweep, with one accumulated less-flat
  point.
\<close>

definition sweepBatch :: "point list" where
  "sweepBatch = frontPoint # map exampleRaw [1 ..< 18] @ [sidePoint]"

definition midSweepState :: ScanRegistration where
  "midSweepState = initialState\<lparr>surfacePointsLessFlat := [examplePoint 0]\<rparr>"

text \<open>The scan indices pushed to the four clouds during one extraction.\<close>

definition allPicks :: "extraction \<Rightarrow> nat list" where
  "allPicks b = sharpPicks b @ lessSharpPicks b @ flatPicks b @ lessFlatPicks b"

text \<open>
  Every scan index pushed to one of the four clouds is an index of the scan
  buffer.
\<close>

definition picksInCloud :: "nat \<Rightarrow> extraction \<Rightarrow> bool" where
  "picksInCloud cloudSize b =
     list_all (\<lambda>p. p < cloudSize) (sharpPicks b @ lessSharpPicks b @ flatPicks b @ lessFlatPicks b)"

subsection \<open>Facts about single-precision rounding\<close>

lemma two_powi_less_D: "(2 :: real) powi a < 2 powi b \<Longrightarrow> a < b"
  using power_int_increasing [of b a "2 :: real"] by (cases "a < b") simp_all

lemma two_powi_le_D: "(2 :: real) powi a \<le> 2 powi b \<Longrightarrow> a \<le> b"
  using power_int_strict_increasing [of b a "2 :: real"] by (cases "a \<le> b") simp_all

lemma binade_below_lower: "- 126 \<le> binade_below n a"
  by (induction n) simp_all

lemma binade_below_le: "binade_below n a \<noteq> - 126 \<Longrightarrow> 2 powi (binade_below n a) \<le> a"
  by (induction n) (simp_all split: if_splits)

lemma binade_below_max:
  "- 126 \<le> e \<Longrightarrow> e \<le> int n - 126 \<Longrightarrow> 2 powi e \<le> a \<Longrightarrow> e \<le> binade_below n a"
proof (induction n)
  case 0
  then show ?case by simp
next
  case (Suc n)
  show ?case
  proof (cases "2 powi (int (Suc n) - 126) \<le> a")
    case True
    then show ?thesis using Suc.prems by simp
  next
    case False
    then have "e \<noteq> int (Suc n) - 126" using Suc.prems(3) by auto
    then have "e \<le> int n - 126" using Suc.prems(2) by simp
    from Suc.IH [OF Suc.prems(1) this Suc.prems(3)] False show ?thesis by simp
  qed
qed

lemma binade_lower: "- 126 \<le> binade a"
  by (simp add: binade_def binade_below_lower)

lemma binade_le: "binade a \<noteq> - 126 \<Longrightarrow> 2 powi (binade a) \<le> a"
  unfolding binade_def by (rule binade_below_le)

lemma binade_eq:
  assumes "2 powi b \<le> a" and "a < 2 powi (b + 1)" and "- 126 \<le> b" and "b \<le> 127"
  shows "binade a = b"
proof -
  have le: "b \<le> binade a"
    unfolding binade_def using assms by (intro binade_below_max) simp_all
  have "binade a \<le> b"
  proof (cases "binade a = - 126")
    case True
    then show ?thesis using assms(3) by simp
  next
    case False
    from binade_le [OF False] assms(2) have "(2::real) powi (binade a) < 2 powi (b + 1)" by simp
    then have "binade a < b + 1" by (rule two_powi_less_D)
    then show ?thesis by simp
  qed
  with le show ?thesis by simp
qed

lemma binade_subnormal:
  assumes "a < 2 powi (- 126)"
  shows "binade a = - 126"
proof (rule ccontr)
  assume n: "binade a \<noteq> - 126"
  from binade_le [OF n] assms have "(2::real) powi (binade a) < 2 powi (- 126)" by simp
  then have "binade a < - 126" by (rule two_powi_less_D)
  with binade_lower [of a] show False by simp
qed

lemma round_even_of_int [simp]: "round_even (of_int z) = z"
  by (simp add: round_even_def)

lemma round_even_0 [simp]: "round_even 0 = 0"
  using round_even_of_int [of 0] by simp

lemma round_even_nonneg: "0 \<le> y \<Longrightarrow> 0 \<le> round_even y"
  by (simp add: round_even_def Let_def)

lemma round_even_ge_1: "1 \<le> y \<Longrightarrow> 1 \<le> round_even y"
proof -
  assume "1 \<le> y"
  then have "1 \<le> \<lfloor>y\<rfloor>" by simp
  then show ?thesis by (simp add: round_even_def Let_def)
qed


lemma ulp_lower: "(2 :: real) powi (- 149) \<le> 2 powi (binade m - 23)"
  using binade_lower [of m] by (intro power_int_increasing) simp_all

lemma round_to_cases:
  assumes "0 \<le> m"
  obtains "round_to s m = signed_inf s"
  | "round_to s m = signed_zero s"
  | v where "round_to s m = Fin v" "v \<noteq> 0" "v < 0 \<longleftrightarrow> s" "2 powi (- 149) \<le> \<bar>v\<bar>"
proof -
  define e where "e = binade m - 23"
  define q where "q = round_even (m / 2 powi e)"
  have q0: "0 \<le> q" unfolding q_def using assms by (intro round_even_nonneg) simp
  have r: "round_to s m =
      (if (2 :: real) ^ 128 \<le> of_int q * 2 powi e then signed_inf s
       else if q = 0 then signed_zero s
       else Fin ((if s then - 1 else 1) * (of_int q * 2 powi e)))"
    by (simp add: round_to_def Let_def e_def q_def)
  show ?thesis
  proof (cases "(2 :: real) ^ 128 \<le> of_int q * 2 powi e")
    case True
    then show ?thesis using r that(1) by simp
  next
    case False
    show ?thesis
    proof (cases "q = 0")
      case True
      then show ?thesis using r False that(2) by simp
    next
      case qn: False
      then have q1: "1 \<le> q" using q0 by simp
      let ?v = "(if s then - 1 else 1) * (of_int q * (2 :: real) powi e)"
      have p: "0 < of_int q * (2 :: real) powi e" using q1 by simp
      have "(2 :: real) powi (- 149) \<le> 2 powi e" unfolding e_def by (rule ulp_lower)
      also have "\<dots> = 1 * 2 powi e" by simp
      also have "\<dots> \<le> of_int q * 2 powi e"
        using q1 by (intro mult_right_mono) simp_all
      finally have b: "(2 :: real) powi (- 149) \<le> of_int q * 2 powi e" .
      have "round_to s m = Fin ?v" using r False qn by simp
      moreover have "?v \<noteq> 0" using p qn by simp
      moreover have "?v < 0 \<longleftrightarrow> s" using p by simp
      moreover have "\<bar>?v\<bar> = of_int q * 2 powi e" using q0 by (simp add: abs_mult)
      then have "2 powi (- 149) \<le> \<bar>?v\<bar>" using b by simp
      ultimately show ?thesis by (rule that(3))
    qed
  qed
qed

lemma round_to_nonzero:
  assumes "2 powi (- 149) \<le> m"
  shows "round_to s m \<noteq> signed_zero s"
proof -
  define e where "e = binade m - 23"
  define q where "q = round_even (m / 2 powi e)"
  have le: "2 powi e \<le> m"
  proof (cases "binade m = - 126")
    case True
    then show ?thesis using assms by (simp add: e_def)
  next
    case False
    have "(2 :: real) powi e \<le> 2 powi (binade m)"
      unfolding e_def by (intro power_int_increasing) simp_all
    also have "\<dots> \<le> m" by (rule binade_le [OF False])
    finally show ?thesis .
  qed
  have "1 \<le> m / 2 powi e" using le by (simp add: field_simps)
  then have q1: "1 \<le> q" unfolding q_def by (rule round_even_ge_1)
  have r: "round_to s m =
      (if (2 :: real) ^ 128 \<le> of_int q * 2 powi e then signed_inf s
       else if q = 0 then signed_zero s
       else Fin ((if s then - 1 else 1) * (of_int q * 2 powi e)))"
    by (simp add: round_to_def Let_def e_def q_def)
  have p: "0 < of_int q * (2 :: real) powi e" using q1 by simp
  show ?thesis
    unfolding r using q1 p by (auto simp: signed_zero_def signed_inf_def)
qed

lemma binade_below_upper: "binade_below n a \<le> int n - 126"
  by (induction n) simp_all

lemma round_even_ge: "of_int z \<le> y \<Longrightarrow> z \<le> round_even y"
proof -
  assume "of_int z \<le> y"
  then have "z \<le> \<lfloor>y\<rfloor>" by (simp add: le_floor_iff)
  then show ?thesis by (simp add: round_even_def Let_def)
qed

lemma round_to_overflow:
  assumes "2 ^ 128 \<le> m"
  shows "round_to s m = signed_inf s"
proof -
  have "(2 :: real) powi 127 \<le> 2 powi 128" by (intro power_int_increasing) simp_all
  also have "\<dots> \<le> m" using assms by simp
  finally have "127 \<le> binade m"
    unfolding binade_def by (intro binade_below_max) simp_all
  moreover have "binade m \<le> 127"
    unfolding binade_def using binade_below_upper [of 253 m] by simp
  ultimately have b: "binade m - 23 = 104" by simp
  have "of_int (2 ^ 24) \<le> m / 2 powi 104" using assms by (simp add: field_simps)
  then have "2 ^ 24 \<le> round_even (m / 2 powi 104)" by (rule round_even_ge)
  then have "real_of_int (2 ^ 24) \<le> real_of_int (round_even (m / 2 powi 104))"
    by (simp only: of_int_le_iff)
  then have "(2 :: real) ^ 24 * 2 powi 104 \<le> real_of_int (round_even (m / 2 powi 104)) * 2 powi 104"
    by (intro mult_right_mono) simp_all
  then have "(2 :: real) ^ 128 \<le> real_of_int (round_even (m / 2 powi 104)) * 2 powi 104"
    by simp
  then show ?thesis
    unfolding round_to_def Let_def b by simp
qed

lemma round_to_eval:
  assumes "2 powi b \<le> m" and "m < 2 powi (b + 1)" and "- 126 \<le> b" and "b \<le> 127"
  shows "round_to s m =
     (let q = round_even (m / 2 powi (b - 23)) in
      if (2 :: real) ^ 128 \<le> of_int q * 2 powi (b - 23) then signed_inf s
      else if q = 0 then signed_zero s
      else Fin ((if s then - 1 else 1) * (of_int q * 2 powi (b - 23))))"
  by (simp add: round_to_def binade_eq [OF assms] Let_def)

lemma round_to_zero [simp]: "round_to s 0 = signed_zero s"
  by (simp add: round_to_def Let_def)

lemma round_to_exact:
  assumes k: "0 < k" "k < 2 ^ 24" and j: "- 149 \<le> j"
    and m: "m = of_int k * 2 powi j" and ub: "m < 2 ^ 128"
  shows "round_to s m = Fin ((if s then - 1 else 1) * m)"
proof -
  define e where "e = binade m - 23"
  have mpos: "0 < m" using k m by simp
  have ej: "e \<le> j"
  proof (cases "binade m = - 126")
    case True
    then show ?thesis using j by (simp add: e_def)
  next
    case False
    have kk: "real_of_int k < 2 ^ 24" using k(2) by simp
    have "m < 2 ^ 24 * 2 powi j"
      unfolding m using kk by (intro mult_strict_right_mono) simp_all
    also have "\<dots> = 2 powi (24 + j)" by (simp add: power_int_add)
    finally have "(2 :: real) powi (binade m) < 2 powi (24 + j)"
      using binade_le [OF False] by simp
    then have "binade m < 24 + j" by (rule two_powi_less_D)
    then show ?thesis by (simp add: e_def)
  qed
  have "m / 2 powi e = of_int k * 2 powi (j - e)"
    unfolding m by (simp add: power_int_diff)
  also have "\<dots> = of_int (k * 2 ^ nat (j - e))"
    using ej by (simp add: power_int_nonneg_exp)
  finally have eq: "m / 2 powi e = of_int (k * 2 ^ nat (j - e))" .
  have q: "round_even (m / 2 powi e) = k * 2 ^ nat (j - e)"
    unfolding eq by (rule round_even_of_int)
  have recon: "of_int (k * 2 ^ nat (j - e)) * (2 :: real) powi e = m"
  proof -
    have "of_int (k * 2 ^ nat (j - e)) * (2 :: real) powi e = of_int k * (2 powi (j - e) * 2 powi e)"
      using ej by (simp add: power_int_nonneg_exp)
    also have "\<dots> = of_int k * 2 powi j" by (simp flip: power_int_add)
    finally show ?thesis by (simp add: m)
  qed
  have qn: "k * 2 ^ nat (j - e) \<noteq> 0" using k by simp
  show ?thesis
    unfolding round_to_def Let_def e_def [symmetric] q recon
    using ub qn by simp
qed

lemma round_to_int:
  assumes "0 < k" "k < 2 ^ 24"
  shows "round_to s (of_int k) = Fin ((if s then - 1 else 1) * of_int k)"
proof -
  have "real_of_int k < 2 ^ 24" using assms(2) by simp
  also have "\<dots> < (2 :: real) ^ 128" by simp
  finally have ub: "real_of_int k < 2 ^ 128" .
  show ?thesis
    by (rule round_to_exact [OF assms, of 0]) (use ub in simp_all)
qed

lemma round_to_nat:
  assumes "0 < n" "n < 2 ^ 24"
  shows "round_to s (real n) = Fin ((if s then - 1 else 1) * real n)"
  using round_to_int [of "int n" s] assms by simp

lemma round_to_numeral [simp]:
  "(numeral k :: int) < 2 ^ 24 \<Longrightarrow>
     round_to s (numeral k) = Fin ((if s then - 1 else 1) * numeral k)"
  using round_to_int [of "numeral k" s] by simp

lemma round_to_1 [simp]: "round_to s 1 = Fin (if s then - 1 else 1)"
  using round_to_int [of 1 s] by simp

lemma round_to_dyadic:
  assumes "0 < k" "k < 2 ^ 24" "j \<le> 149"
  shows "round_to s (real k / 2 ^ j) = Fin ((if s then - 1 else 1) * (real k / 2 ^ j))"
proof -
  have m: "real k / 2 ^ j = of_int (int k) * 2 powi (- int j)"
    by (simp add: power_int_minus field_simps)
  have "real k / 2 ^ j \<le> real k" by (simp add: field_simps mult_le_cancel_left1)
  also have "\<dots> < 2 ^ 24" using assms(2) by (metis of_nat_less_iff of_nat_numeral of_nat_power)
  also have "\<dots> < (2 :: real) ^ 128" by simp
  finally have ub: "real k / 2 ^ j < 2 ^ 128" .
  show ?thesis
    by (rule round_to_exact [OF _ _ _ m ub]) (use assms in simp_all)
qed

lemma round32_nonneg: "0 \<le> x \<Longrightarrow> round32 x = round_to False x"
  by (simp add: round32_def)

lemma round32_neg: "x < 0 \<Longrightarrow> round32 x = round_to True (- x)"
  by (simp add: round32_def)

lemma round_to_float_range: "0 \<le> m \<Longrightarrow> float_range (round_to s m)"
  by (rule round_to_cases [of m s])
    (auto simp: float_range_def signed_inf_def signed_zero_def)

lemma round_to_sign:
  assumes "2 powi (- 149) \<le> m"
  shows "flt_less (round_to s m) (Fin 0) = s" and "flt_less (Fin 0) (round_to s m) = (\<not> s)"
proof -
  have m0: "0 \<le> m"
  proof -
    have "(0 :: real) \<le> 2 powi (- 149)" by simp
    with assms show ?thesis by linarith
  qed
  note nz = round_to_nonzero [OF assms, of s]
  show "flt_less (round_to s m) (Fin 0) = s"
  proof (rule round_to_cases [OF m0, of s])
    assume "round_to s m = signed_inf s"
    then show ?thesis by (simp add: signed_inf_def)
  next
    assume "round_to s m = signed_zero s"
    with nz show ?thesis by simp
  next
    fix v assume "round_to s m = Fin v" "v \<noteq> 0" "v < 0 \<longleftrightarrow> s"
    then show ?thesis by simp
  qed
  show "flt_less (Fin 0) (round_to s m) = (\<not> s)"
  proof (rule round_to_cases [OF m0, of s])
    assume "round_to s m = signed_inf s"
    then show ?thesis by (simp add: signed_inf_def)
  next
    assume "round_to s m = signed_zero s"
    with nz show ?thesis by simp
  next
    fix v assume "round_to s m = Fin v" "v \<noteq> 0" "v < 0 \<longleftrightarrow> s"
    then show ?thesis by auto
  qed
qed

lemma round_to_zero_sign:
  "\<not> flt_less (signed_zero s) (Fin 0)" "\<not> flt_less (Fin 0) (signed_zero s)"
  by (simp_all add: signed_zero_def)

lemma sign_test:
  assumes "float_range angle"
  shows "flt_less (fmul angle (Fin (of_int d))) (Fin 0) = signDisagrees angle d"
proof (cases angle)
  case (Fin a)
  show ?thesis
  proof (cases "a = 0 \<or> d = 0")
    case True
    then have "fmul angle (Fin (of_int d)) = signed_zero (fsign angle \<noteq> (d < 0))"
      by (auto simp: fmul_def Fin)
    moreover have "\<not> signDisagrees angle d"
      using True by (auto simp: signDisagrees_def Fin)
    ultimately show ?thesis by (simp add: round_to_zero_sign)
  next
    case False
    then have a: "2 powi (- 149) \<le> \<bar>a\<bar>" using assms by (simp add: float_range_def Fin)
    have "1 \<le> \<bar>d\<bar>" using False by arith
    then have "real_of_int 1 \<le> real_of_int \<bar>d\<bar>" by (simp only: of_int_le_iff)
    then have "1 \<le> \<bar>real_of_int d\<bar>" by simp
    then have "\<bar>a\<bar> * 1 \<le> \<bar>a\<bar> * \<bar>real_of_int d\<bar>" by (intro mult_left_mono) simp_all
    with a have m: "2 powi (- 149) \<le> \<bar>a * real_of_int d\<bar>" by (simp add: abs_mult)
    have "fmul angle (Fin (of_int d)) = round_to ((a < 0) \<noteq> (d < 0)) \<bar>a * real_of_int d\<bar>"
      by (simp add: fmul_def Fin)
    then have "flt_less (fmul angle (Fin (of_int d))) (Fin 0) = ((a < 0) \<noteq> (d < 0))"
      by (simp add: round_to_sign [OF m])
    moreover have "signDisagrees angle d = ((a < 0) \<noteq> (d < 0))"
      using False by (auto simp: signDisagrees_def Fin)
    ultimately show ?thesis by simp
  qed
next
  case NegZero
  then show ?thesis by (simp add: fmul_def signDisagrees_def round_to_zero_sign)
next
  case PInf
  then show ?thesis by (auto simp: fmul_def signDisagrees_def signed_inf_def)
next
  case NInf
  then show ?thesis by (auto simp: fmul_def signDisagrees_def signed_inf_def)
next
  case NaN
  then show ?thesis by (simp add: fmul_def signDisagrees_def)
qed

lemma atan2_nonneg:
  assumes "0 \<le> y"
  shows "0 \<le> atan2 y x"
proof -
  have l: "- (pi / 2) < arctan (y / x)" by (rule arctan_lbound)
  have p: "0 < pi" by (rule pi_gt_zero)
  consider "0 < x" | "x < 0" | "x = 0" by linarith
  then show ?thesis
  proof cases
    case 1
    then have "0 \<le> y / x" using assms by simp
    then have "0 \<le> arctan (y / x)" by (simp add: zero_le_arctan_iff)
    then show ?thesis using 1 by (simp add: atan2_def)
  next
    case 2
    have "0 \<le> arctan (y / x) + pi" using l p by linarith
    then show ?thesis using 2 assms by (simp add: atan2_def)
  next
    case 3
    then show ?thesis using assms p by (simp add: atan2_def)
  qed
qed

lemma atan2_magnitude_nonneg: "0 \<le> atan2_magnitude y x"
  using pi_gt_zero by (auto simp: atan2_magnitude_def atan2_nonneg)

lemma fatan2_float_range: "float_range (fatan2 y x)"
proof (cases "y = NaN \<or> x = NaN")
  case True
  then show ?thesis by (simp add: fatan2_def float_range_def)
next
  case False
  then have "fatan2 y x = round_to (fsign y) (atan2_magnitude y x)" by (simp add: fatan2_def)
  then show ?thesis by (simp add: round_to_float_range [OF atan2_magnitude_nonneg])
qed

subsection \<open>Single-precision arithmetic on small whole numbers\<close>

lemma fmul_nat:
  assumes "a * b < 2 ^ 24"
  shows "fmul (Fin (real a)) (Fin (real b)) = Fin (real (a * b))"
proof (cases "a * b = 0")
  case True
  then have "a = 0 \<or> b = 0" by simp
  then show ?thesis by (auto simp: fmul_def signed_zero_def)
next
  case False
  then have "round_to False (real (a * b)) = Fin (real (a * b))"
    using round_to_nat [of "a * b" False] assms by simp
  then show ?thesis by (simp add: fmul_def abs_mult)
qed

lemma fadd_nat:
  assumes "a + b < 2 ^ 24"
  shows "fadd (Fin (real a)) (Fin (real b)) = Fin (real (a + b))"
proof (cases "a + b = 0")
  case True
  then show ?thesis by (simp add: fadd_def signed_zero_def)
next
  case False
  then have nz: "real a + real b \<noteq> 0" by (metis of_nat_add of_nat_eq_0_iff)
  have "round_to False (real (a + b)) = Fin (real (a + b))"
    using round_to_nat [of "a + b" False] assms False by simp
  then show ?thesis using nz by (simp add: fadd_def round32_def)
qed

lemma squares_sum_nat:
  assumes "a * a + b * b + c * c < 2 ^ 24"
  shows "fadd (fadd (fmul (Fin (real a)) (Fin (real a))) (fmul (Fin (real b)) (Fin (real b))))
           (fmul (Fin (real c)) (Fin (real c))) = Fin (real (a * a + b * b + c * c))"
proof -
  have l: "a * a < 2 ^ 24" "b * b < 2 ^ 24" "c * c < 2 ^ 24" "a * a + b * b < 2 ^ 24"
    using assms by linarith+
  show ?thesis
    unfolding fmul_nat [OF l(1)] fmul_nat [OF l(2)] fmul_nat [OF l(3)] fadd_nat [OF l(4)]
    by (rule fadd_nat [OF assms])
qed

lemma double_0_0001_bounds: "0 < double_0_0001" "double_0_0001 < 1"
  by (simp_all add: double_0_0001_def)

lemma skipped_nat:
  assumes "a * a + b * b + c * c < 2 ^ 24"
  shows "skipped \<lparr>px = Fin (real a), py = Fin (real b), pz = Fin (real c)\<rparr> \<longleftrightarrow>
           a * a + b * b + c * c = 0"
proof -
  have "real (a * a + b * b + c * c) < double_0_0001 \<longleftrightarrow> a * a + b * b + c * c = 0"
  proof (cases "a * a + b * b + c * c = 0")
    case True
    then show ?thesis using double_0_0001_bounds(1) by simp
  next
    case False
    then have "0 < a * a + b * b + c * c" by (rule neq0_conv [THEN iffD1])
    then have "1 \<le> a * a + b * b + c * c" by linarith
    then have "1 \<le> real (a * a + b * b + c * c)" by (metis of_nat_1 of_nat_le_iff)
    then show ?thesis using False double_0_0001_bounds(2) by linarith
  qed
  then show ?thesis
    by (simp add: skipped_def squares_sum_nat [OF assms])
qed

lemma examplePoint_kept:
  assumes "i < 2048"
  shows "\<not> skipped (examplePoint i)"
proof -
  have "i * i \<le> 2047 * 2047" using assms by (intro mult_mono) simp_all
  then have b: "i * i + 1 * 1 + 0 * 0 < 2 ^ 24" by simp
  have "examplePoint i = \<lparr>px = Fin (real i), py = Fin (real 1), pz = Fin (real 0)\<rparr>"
    by (simp add: examplePoint_def)
  then show ?thesis using skipped_nat [OF b] by simp
qed

lemma remapAxes_exampleRaw: "remapAxes (exampleRaw i) = examplePoint i"
  by (simp add: remapAxes_def exampleRaw_def examplePoint_def)

lemma extractValid_exampleRaw:
  assumes "\<not> hasIMUData cap" and "\<forall>i \<in> set ks. i < 2048"
  shows "extractValid cap (map exampleRaw ks) acc = acc @ map examplePoint ks"
  using assms(2)
  by (induction ks arbitrary: acc)
    (simp_all add: remapAxes_exampleRaw examplePoint_kept assms(1))

lemma extractValid_exampleBatch:
  assumes "\<not> hasIMUData cap" and "n \<le> 2048"
  shows "extractValid cap (exampleBatch n) [] = exampleCloud n"
  unfolding exampleBatch_def exampleCloud_def
  using extractValid_exampleRaw [OF assms(1), of "[0 ..< n]" "[]"] assms(2) by simp

subsection \<open>Facts about the region tables\<close>

lemma bindE_Inr [simp]: "bindE (Inr v) f = f v"
  by (simp add: bindE_def)

lemma bindE_Inl [simp]: "bindE (Inl e) f = Inl e"
  by (simp add: bindE_def)

lemma size_sub_le [simp]: "b \<le> a \<Longrightarrow> size_sub a b = a - b"
  by (simp add: size_sub_def)

lemma startPoints_valid:
  assumes "10 \<le> n" and "n < 2 ^ 31"
  shows "startPoints n =
    Inr [5, 6 + (n - 10) div 4, 6 + (n - 10) div 2, 6 + 3 * (n - 10) div 4]"
proof -
  have a: "(n - 10) div 4 < 2 ^ 31" "(n - 10) div 2 < 2 ^ 31" using assms by auto
  have m: "size_mul 3 (n - 10) = 3 * (n - 10)"
    using assms by (simp add: size_mul_def)
  have b: "3 * (n - 10) div 4 < 2 ^ 31" using assms by auto
  have c: "6 + (n - 10) div 4 < 2 ^ 31" "6 + (n - 10) div 2 < 2 ^ 31"
    "6 + 3 * (n - 10) div 4 < 2 ^ 31" using assms by auto
  show ?thesis
    using assms a b c by (simp add: startPoints_def int_of_quotient_def int_plus_def m)
qed

lemma endPoints_valid:
  assumes "10 \<le> n" and "n < 2 ^ 31"
  shows "endPoints n =
    Inr [5 + (n - 10) div 4, 5 + (n - 10) div 2, 5 + 3 * (n - 10) div 4, n - 6]"
proof -
  have a: "(n - 10) div 4 < 2 ^ 31" "(n - 10) div 2 < 2 ^ 31" using assms by auto
  have m: "size_mul 3 (n - 10) = 3 * (n - 10)"
    using assms by (simp add: size_mul_def)
  have b: "3 * (n - 10) div 4 < 2 ^ 31" using assms by auto
  have c: "5 + (n - 10) div 4 < 2 ^ 31" "5 + (n - 10) div 2 < 2 ^ 31"
    "5 + 3 * (n - 10) div 4 < 2 ^ 31" using assms by auto
  show ?thesis
    using assms a b c by (simp add: endPoints_def int_of_quotient_def int_plus_def m)
qed

lemma regionCover_valid:
  assumes "10 \<le> n" and "n < 2 ^ 31"
  shows "regionCover n = Inr
    ([5 ..< 5 + (n - 10) div 4] @ [6 + (n - 10) div 4 ..< 5 + (n - 10) div 2] @
     [6 + (n - 10) div 2 ..< 5 + 3 * (n - 10) div 4] @ [6 + 3 * (n - 10) div 4 ..< n - 6])"
  using assms
  by (simp add: regionCover_def regions_def startPoints_valid endPoints_valid
      regionIndices_def)

lemma four_ranges_sorted:
  fixes a b c n :: nat
  assumes "a + 1 \<le> b" "b + 1 \<le> c" "c + 12 \<le> n"
  shows "sorted ([5 ..< 5 + a] @ [6 + a ..< 5 + b] @ [6 + b ..< 5 + c] @ [6 + c ..< n - 6])"
  using assms by (auto simp: sorted_append)

lemma four_ranges_distinct:
  fixes a b c n :: nat
  assumes "a + 1 \<le> b" "b + 1 \<le> c" "c + 12 \<le> n"
  shows "distinct ([5 ..< 5 + a] @ [6 + a ..< 5 + b] @ [6 + b ..< 5 + c] @ [6 + c ..< n - 6])"
  using assms by auto

subsection \<open>Reads, writes and the loops\<close>

lemma bindE_eq_Inr: "bindE m f = Inr r \<longleftrightarrow> (\<exists>v. m = Inr v \<and> f v = Inr r)"
  by (cases m) (simp_all add: bindE_def)

lemma readAt_eq_Inr: "readAt v i = Inr x \<longleftrightarrow> i < length v \<and> x = v ! i"
  by (auto simp: readAt_def)

lemma writeAt_eq_Inr: "writeAt v i x = Inr w \<longleftrightarrow> i < length v \<and> w = v[i := x]"
  by (auto simp: writeAt_def)

lemma cornerLoop_invariant:
  assumes "cornerLoop cfg nbhd cloudSize sp j s = Inr r"
    and "P s"
    and "\<And>j s c s'. P s \<Longrightarrow> fst s < maxCornerLessSharp cfg \<Longrightarrow>
           cornerBody cfg nbhd cloudSize sp j s = Inr (c, s') \<Longrightarrow> P s'"
  shows "P r"
  using assms
proof (induction cfg nbhd cloudSize sp j s rule: cornerLoop.induct)
  case (1 cfg nbhd cloudSize sp j s)
  show ?case
  proof (cases "0 < j \<and> fst s < maxCornerLessSharp cfg")
    case False
    with "1.prems" show ?thesis by (simp add: cornerLoop.simps)
  next
    case True
    then obtain c s' where body: "cornerBody cfg nbhd cloudSize sp j s = Inr (c, s')"
      using "1.prems"(1) by (cases "cornerBody cfg nbhd cloudSize sp j s") (auto simp: cornerLoop.simps)
    have P': "P s'" using "1.prems"(3) [OF "1.prems"(2) _ body] True by blast
    show ?thesis
    proof (cases c)
      case Break
      with True body "1.prems"(1) have "r = s'" by (simp add: cornerLoop.simps)
      with P' show ?thesis by simp
    next
      case Continue
      have body': "cornerBody cfg nbhd cloudSize sp j s = Inr (Continue, s')"
        using body Continue by simp
      have rec: "cornerLoop cfg nbhd cloudSize sp (j - 1) s' = Inr r"
        using True body' "1.prems"(1) by (simp add: cornerLoop.simps)
      show ?thesis
        by (rule "1.IH" [OF True body' refl refl rec P' "1.prems"(3)])
    qed
  qed
qed

lemma cornerBody_cases [consumes 1, case_names Skip Break Sharp LessSharp]:
  assumes "cornerBody cfg nbhd cloudSize sp j (n, b) = Inr (c, n', b')"
  obtains "c = Continue" "n' = n" "b' = b"
  | "c = Break" "n' = n + 1" "b' = b"
  | scanIdx where "c = Continue" "n' = n + 1" "n + 1 \<le> maxCornerSharp cfg"
      "j < length (regionSortIndices b)" "scanIdx = regionSortIndices b ! j"
      "scanIdx < length (scanNeighborPicked b)" "scanNeighborPicked b ! scanIdx = 0"
      "size_sub scanIdx sp < length (regionLabel b)" "scanIdx < cloudSize"
      "b' = b\<lparr>regionLabel := (regionLabel b)[size_sub scanIdx sp := CORNER_SHARP],
               sharpPicks := sharpPicks b @ [scanIdx],
               scanNeighborPicked := markAsPicked nbhd scanIdx (scanNeighborPicked b)\<rparr>"
  | scanIdx where "c = Continue" "n' = n + 1" "\<not> n + 1 \<le> maxCornerSharp cfg"
      "n + 1 \<le> maxCornerSharp cfg * 10"
      "j < length (regionSortIndices b)" "scanIdx = regionSortIndices b ! j"
      "scanIdx < length (scanNeighborPicked b)" "scanNeighborPicked b ! scanIdx = 0"
      "size_sub scanIdx sp < length (regionLabel b)" "scanIdx < cloudSize"
      "b' = b\<lparr>regionLabel := (regionLabel b)[size_sub scanIdx sp := CORNER_LESS_SHARP],
               lessSharpPicks := lessSharpPicks b @ [scanIdx],
               scanNeighborPicked := markAsPicked nbhd scanIdx (scanNeighborPicked b)\<rparr>"
proof -
  let ?thr = "surfaceCurvatureThreshold cfg"
  from assms obtain scanIdx where
    r1: "readAt (regionSortIndices b) j = Inr scanIdx"
    by (auto simp: cornerBody_def bindE_eq_Inr)
  from assms r1 obtain picked where
    r2: "readAt (scanNeighborPicked b) scanIdx = Inr picked"
    by (auto simp: cornerBody_def bindE_eq_Inr)
  have idx: "j < length (regionSortIndices b)" "scanIdx = regionSortIndices b ! j"
    "scanIdx < length (scanNeighborPicked b)" "picked = scanNeighborPicked b ! scanIdx"
    using r1 r2 by (auto simp: readAt_eq_Inr)
  show ?thesis
  proof (cases "picked \<noteq> 0")
    case True
    with assms r1 r2 have "c = Continue \<and> n' = n \<and> b' = b"
      by (simp add: cornerBody_def)
    then show ?thesis using that(1) by blast
  next
    case False
    then have p0: "picked = 0" by simp
    from assms r1 r2 p0 obtain cv where
      r3: "readAt (regionCurvature b) (size_sub scanIdx sp) = Inr cv"
      by (auto simp: cornerBody_def bindE_eq_Inr)
    show ?thesis
    proof (cases "flt_less ?thr cv")
      case False
      with assms r1 r2 r3 p0 have "c = Continue \<and> n' = n \<and> b' = b"
        by (simp add: cornerBody_def)
      then show ?thesis using that(1) by blast
    next
      case True
      note above = this
      show ?thesis
      proof (cases "n + 1 \<le> maxCornerSharp cfg")
        case True
        with assms r1 r2 r3 p0 above obtain labels where
          w: "writeAt (regionLabel b) (size_sub scanIdx sp) CORNER_SHARP = Inr labels"
          and res: "(if scanIdx < cloudSize then
             Inr (Continue, n + 1,
               b\<lparr>regionLabel := labels, sharpPicks := sharpPicks b @ [scanIdx],
                 scanNeighborPicked := markAsPicked nbhd scanIdx (scanNeighborPicked b)\<rparr>)
             else Inl OutOfBounds) = Inr (c, n', b')"
          by (auto simp: cornerBody_def bindE_eq_Inr)
        from res have lt: "scanIdx < cloudSize" by (auto split: if_splits)
        from res lt w have "c = Continue" "n' = n + 1"
          "b' = b\<lparr>regionLabel := (regionLabel b)[size_sub scanIdx sp := CORNER_SHARP],
               sharpPicks := sharpPicks b @ [scanIdx],
               scanNeighborPicked := markAsPicked nbhd scanIdx (scanNeighborPicked b)\<rparr>"
          "size_sub scanIdx sp < length (regionLabel b)"
          by (auto simp: writeAt_eq_Inr)
        then show ?thesis using that(3) True idx p0 lt by blast
      next
        case False
        note notsharp = this
        show ?thesis
        proof (cases "n + 1 \<le> maxCornerSharp cfg * 10")
          case False
          with assms r1 r2 r3 p0 above notsharp have "c = Break \<and> n' = n + 1 \<and> b' = b"
            by (simp add: cornerBody_def)
          then show ?thesis using that(2) by blast
        next
          case True
          with assms r1 r2 r3 p0 above notsharp obtain labels where
            w: "writeAt (regionLabel b) (size_sub scanIdx sp) CORNER_LESS_SHARP = Inr labels"
            and res: "(if scanIdx < cloudSize then
               Inr (Continue, n + 1,
                 b\<lparr>regionLabel := labels, lessSharpPicks := lessSharpPicks b @ [scanIdx],
                   scanNeighborPicked := markAsPicked nbhd scanIdx (scanNeighborPicked b)\<rparr>)
               else Inl OutOfBounds) = Inr (c, n', b')"
            by (auto simp: cornerBody_def bindE_eq_Inr)
          from res have lt: "scanIdx < cloudSize" by (auto split: if_splits)
          from res lt w have "c = Continue" "n' = n + 1"
            "b' = b\<lparr>regionLabel := (regionLabel b)[size_sub scanIdx sp := CORNER_LESS_SHARP],
                 lessSharpPicks := lessSharpPicks b @ [scanIdx],
                 scanNeighborPicked := markAsPicked nbhd scanIdx (scanNeighborPicked b)\<rparr>"
            "size_sub scanIdx sp < length (regionLabel b)"
            by (auto simp: writeAt_eq_Inr)
          then show ?thesis using that(4) True notsharp idx p0 lt by blast
        qed
      qed
    qed
  qed
qed

lemma surfaceBody_cases [consumes 1, case_names Skip Flat]:
  assumes "surfaceBody cfg nbhd cloudSize sp j (n, b) = Inr (n', b')"
  obtains "n' = n" "b' = b"
  | scanIdx where "n' = n + 1"
      "j < length (regionSortIndices b)" "scanIdx = regionSortIndices b ! j"
      "scanIdx < length (scanNeighborPicked b)" "scanNeighborPicked b ! scanIdx = 0"
      "size_sub scanIdx sp < length (regionLabel b)" "scanIdx < cloudSize"
      "b' = b\<lparr>regionLabel := (regionLabel b)[size_sub scanIdx sp := SURFACE_FLAT],
               flatPicks := flatPicks b @ [scanIdx],
               scanNeighborPicked := markAsPicked nbhd scanIdx (scanNeighborPicked b)\<rparr>"
proof -
  let ?thr = "surfaceCurvatureThreshold cfg"
  from assms obtain scanIdx where
    r1: "readAt (regionSortIndices b) j = Inr scanIdx"
    by (auto simp: surfaceBody_def bindE_eq_Inr)
  from assms r1 obtain picked where
    r2: "readAt (scanNeighborPicked b) scanIdx = Inr picked"
    by (auto simp: surfaceBody_def bindE_eq_Inr)
  have idx: "j < length (regionSortIndices b)" "scanIdx = regionSortIndices b ! j"
    "scanIdx < length (scanNeighborPicked b)" "picked = scanNeighborPicked b ! scanIdx"
    using r1 r2 by (auto simp: readAt_eq_Inr)
  show ?thesis
  proof (cases "picked \<noteq> 0")
    case True
    with assms r1 r2 have "n' = n \<and> b' = b"
      by (simp add: surfaceBody_def)
    then show ?thesis using that(1) by blast
  next
    case False
    then have p0: "picked = 0" by simp
    from assms r1 r2 p0 obtain cv where
      r3: "readAt (regionCurvature b) (size_sub scanIdx sp) = Inr cv"
      by (auto simp: surfaceBody_def bindE_eq_Inr)
    show ?thesis
    proof (cases "flt_less cv ?thr")
      case False
      with assms r1 r2 r3 p0 have "n' = n \<and> b' = b"
        by (simp add: surfaceBody_def)
      then show ?thesis using that(1) by blast
    next
      case True
      with assms r1 r2 r3 p0 obtain labels where
        w: "writeAt (regionLabel b) (size_sub scanIdx sp) SURFACE_FLAT = Inr labels"
        and res: "(if scanIdx < cloudSize then
           Inr (n + 1,
             b\<lparr>regionLabel := labels, flatPicks := flatPicks b @ [scanIdx],
               scanNeighborPicked := markAsPicked nbhd scanIdx (scanNeighborPicked b)\<rparr>)
           else Inl OutOfBounds) = Inr (n', b')"
        by (auto simp: surfaceBody_def bindE_eq_Inr)
      from res have lt: "scanIdx < cloudSize" by (auto split: if_splits)
      from res lt w have "n' = n + 1"
        "b' = b\<lparr>regionLabel := (regionLabel b)[size_sub scanIdx sp := SURFACE_FLAT],
             flatPicks := flatPicks b @ [scanIdx],
             scanNeighborPicked := markAsPicked nbhd scanIdx (scanNeighborPicked b)\<rparr>"
        "size_sub scanIdx sp < length (regionLabel b)"
        by (auto simp: writeAt_eq_Inr)
      then show ?thesis using that(2) idx p0 lt by blast
    qed
  qed
qed

lemma surfaceLoop_invariant:
  assumes "surfaceLoop cfg nbhd cloudSize sp regionSize j s = Inr r"
    and "P s"
    and "\<And>j s s'. P s \<Longrightarrow> fst s < maxSurfaceFlat cfg \<Longrightarrow>
           surfaceBody cfg nbhd cloudSize sp j s = Inr s' \<Longrightarrow> P s'"
  shows "P r"
  using assms
proof (induction cfg nbhd cloudSize sp regionSize j s rule: surfaceLoop.induct)
  case (1 cfg nbhd cloudSize sp regionSize j s)
  show ?case
  proof (cases "j < regionSize \<and> fst s < maxSurfaceFlat cfg")
    case False
    with "1.prems" show ?thesis by (simp add: surfaceLoop.simps)
  next
    case True
    then obtain s' where body: "surfaceBody cfg nbhd cloudSize sp j s = Inr s'"
      using "1.prems"(1) by (cases "surfaceBody cfg nbhd cloudSize sp j s") (auto simp: surfaceLoop.simps)
    have P': "P s'" using "1.prems"(3) [OF "1.prems"(2) _ body] True by blast
    have rec: "surfaceLoop cfg nbhd cloudSize sp regionSize (j + 1) s' = Inr r"
      using True body "1.prems"(1) by (simp add: surfaceLoop.simps)
    show ?thesis
      by (rule "1.IH" [OF True body rec P' "1.prems"(3)])
  qed
qed

lemma count_list_update_le: "count_list (xs[i := v]) l \<le> Suc (count_list xs l)"
proof (induction xs arbitrary: i)
  case Nil
  then show ?case by simp
next
  case (Cons x xs)
  then show ?case by (cases i) (auto intro: le_SucI)
qed

lemma count_list_update_other: "l \<noteq> v \<Longrightarrow> count_list (xs[i := v]) l \<le> count_list xs l"
proof (induction xs arbitrary: i)
  case Nil
  then show ?case by simp
next
  case (Cons x xs)
  then show ?case by (cases i) (auto intro: le_SucI)
qed

lemma count_list_update_pair:
  "l1 \<noteq> l2 \<Longrightarrow>
   count_list (xs[i := v]) l1 + count_list (xs[i := v]) l2 \<le> Suc (count_list xs l1 + count_list xs l2)"
proof (induction xs arbitrary: i)
  case Nil
  then show ?case by simp
next
  case (Cons x xs)
  show ?case
  proof (cases i)
    case 0
    with Cons.prems show ?thesis by auto
  next
    case (Suc k)
    with Cons.IH [OF Cons.prems, of k] show ?thesis by auto
  qed
qed

lemma count_list_update_pair_other:
  "l1 \<noteq> v \<Longrightarrow> l2 \<noteq> v \<Longrightarrow>
   count_list (xs[i := v]) l1 + count_list (xs[i := v]) l2 \<le> count_list xs l1 + count_list xs l2"
  using count_list_update_other [of l1 v xs i] count_list_update_other [of l2 v xs i] by linarith

lemma lessFlatLoop_invariant:
  assumes "lessFlatLoop cloudSize sp regionSize j b = Inr r"
    and "P j b"
    and "\<And>j b. P j b \<Longrightarrow> j < regionSize \<Longrightarrow> j < length (regionLabel b) \<Longrightarrow>
           labelValue (regionLabel b ! j) \<le> labelValue SURFACE_LESS_FLAT \<Longrightarrow>
           size_add sp j < cloudSize \<Longrightarrow>
           P (j + 1) (b\<lparr>lessFlatPicks := lessFlatPicks b @ [size_add sp j]\<rparr>)"
    and "\<And>j b. P j b \<Longrightarrow> j < regionSize \<Longrightarrow> j < length (regionLabel b) \<Longrightarrow>
           \<not> labelValue (regionLabel b ! j) \<le> labelValue SURFACE_LESS_FLAT \<Longrightarrow> P (j + 1) b"
  shows "P (max j regionSize) r"
  using assms
proof (induction cloudSize sp regionSize j b rule: lessFlatLoop.induct)
  case (1 cloudSize sp regionSize j b)
  show ?case
  proof (cases "j < regionSize")
    case False
    with "1.prems"(1) have "r = b" by (simp add: lessFlatLoop.simps)
    moreover from False have "max j regionSize = j" by simp
    ultimately show ?thesis using "1.prems"(2) by simp
  next
    case True
    then obtain l where rd: "readAt (regionLabel b) j = Inr l"
      using "1.prems"(1) by (cases "readAt (regionLabel b) j") (auto simp: lessFlatLoop.simps)
    then have jl: "j < length (regionLabel b)" and l: "l = regionLabel b ! j"
      by (auto simp: readAt_eq_Inr)
    have mx: "max (j + 1) regionSize = max j regionSize" using True by simp
    show ?thesis
    proof (cases "labelValue l \<le> labelValue SURFACE_LESS_FLAT")
      case False
      with True rd "1.prems"(1) have rec: "lessFlatLoop cloudSize sp regionSize (j + 1) b = Inr r"
        by (simp add: lessFlatLoop.simps)
      have P': "P (j + 1) b" using "1.prems"(4) [OF "1.prems"(2) True jl] False l by simp
      from "1.IH"(2) [OF True rd False rec P' "1.prems"(3) "1.prems"(4)]
      show ?thesis using mx by simp
    next
      case le: True
      with True rd "1.prems"(1) have lt: "size_add sp j < cloudSize"
        by (auto simp: lessFlatLoop.simps split: if_splits)
      with le True rd "1.prems"(1) have rec: "lessFlatLoop cloudSize sp regionSize (j + 1)
          (b\<lparr>lessFlatPicks := lessFlatPicks b @ [size_add sp j]\<rparr>) = Inr r"
        by (simp add: lessFlatLoop.simps)
      have P': "P (j + 1) (b\<lparr>lessFlatPicks := lessFlatPicks b @ [size_add sp j]\<rparr>)"
        using "1.prems"(3) [OF "1.prems"(2) True jl _ lt] le l by simp
      from "1.IH"(1) [OF True rd le lt rec P' "1.prems"(3) "1.prems"(4)]
      show ?thesis using mx by simp
    qed
  qed
qed

lemma lessFlatLoop_frame:
  assumes "lessFlatLoop cloudSize sp regionSize j b = Inr r"
  shows "regionLabel r = regionLabel b \<and> sharpPicks r = sharpPicks b \<and>
         lessSharpPicks r = lessSharpPicks b \<and> flatPicks r = flatPicks b \<and>
         scanNeighborPicked r = scanNeighborPicked b"
proof -
  define P where "P = (\<lambda>(j' :: nat) (b' :: extraction).
      regionLabel b' = regionLabel b \<and> sharpPicks b' = sharpPicks b \<and>
      lessSharpPicks b' = lessSharpPicks b \<and> flatPicks b' = flatPicks b \<and>
      scanNeighborPicked b' = scanNeighborPicked b)"
  have "P (max j regionSize) r"
  proof (rule lessFlatLoop_invariant [OF assms, where P = P])
    show "P j b" by (simp add: P_def)
  next
    fix j' b'
    assume "P j' b'"
    then show "P (j' + 1) (b'\<lparr>lessFlatPicks := lessFlatPicks b' @ [size_add sp j']\<rparr>)"
      by (simp add: P_def)
  next
    fix j' b'
    assume "P j' b'"
    then show "P (j' + 1) b'" by (simp add: P_def)
  qed
  then show ?thesis by (simp add: P_def)
qed

lemma count_update_int:
  "int (count_list (xs[i := v]) l) \<le> int (count_list xs l) + 1"
  using count_list_update_le [of xs i v l] by linarith

lemma count_update_other_int:
  "l \<noteq> v \<Longrightarrow> int (count_list (xs[i := v]) l) \<le> int (count_list xs l)"
  using count_list_update_other [of l v xs i] by linarith

lemma count_update_pair_int:
  "l1 \<noteq> l2 \<Longrightarrow> int (count_list (xs[i := v]) l1) + int (count_list (xs[i := v]) l2)
     \<le> int (count_list xs l1) + int (count_list xs l2) + 1"
  using count_list_update_pair [of l1 l2 xs i v] by linarith

lemma cornerLoop_quota:
  assumes run: "cornerLoop cfg nbhd cloudSize sp j (0, b) = Inr r"
    and S: "0 \<le> maxCornerSharp cfg" and L: "0 \<le> maxCornerLessSharp cfg"
    and fresh: "count_list (regionLabel b) CORNER_SHARP = 0"
      "count_list (regionLabel b) CORNER_LESS_SHARP = 0"
      "count_list (regionLabel b) SURFACE_FLAT = 0"
  shows "int (count_list (regionLabel (snd r)) CORNER_SHARP) \<le> maxCornerSharp cfg \<and>
     int (count_list (regionLabel (snd r)) CORNER_SHARP) +
       int (count_list (regionLabel (snd r)) CORNER_LESS_SHARP) \<le> maxCornerLessSharp cfg \<and>
     count_list (regionLabel (snd r)) SURFACE_FLAT = 0 \<and>
     int (length (sharpPicks (snd r))) \<le> int (length (sharpPicks b)) + maxCornerSharp cfg \<and>
     int (length (sharpPicks (snd r))) + int (length (lessSharpPicks (snd r))) \<le>
       int (length (sharpPicks b)) + int (length (lessSharpPicks b)) + maxCornerLessSharp cfg \<and>
     flatPicks (snd r) = flatPicks b"
proof -
  define P where "P = (\<lambda>s :: int \<times> extraction. 0 \<le> fst s \<and> fst s \<le> maxCornerLessSharp cfg \<and>
     int (count_list (regionLabel (snd s)) CORNER_SHARP) \<le> maxCornerSharp cfg \<and>
     int (count_list (regionLabel (snd s)) CORNER_SHARP) +
       int (count_list (regionLabel (snd s)) CORNER_LESS_SHARP) \<le> fst s \<and>
     count_list (regionLabel (snd s)) SURFACE_FLAT = 0 \<and>
     int (length (sharpPicks (snd s))) \<le> int (length (sharpPicks b)) + maxCornerSharp cfg \<and>
     int (length (sharpPicks (snd s))) \<le> int (length (sharpPicks b)) + fst s \<and>
     int (length (sharpPicks (snd s))) + int (length (lessSharpPicks (snd s))) \<le>
       int (length (sharpPicks b)) + int (length (lessSharpPicks b)) + fst s \<and>
     flatPicks (snd s) = flatPicks b)"
  have init: "P (0, b)" using S L fresh by (simp add: P_def)
  have step: "P s'" if P: "P s" and lt: "fst s < maxCornerLessSharp cfg"
    and body: "cornerBody cfg nbhd cloudSize sp j s = Inr (c, s')" for j s c s'
  proof -
    obtain n b1 where s: "s = (n, b1)" by (cases s)
    obtain n' b1' where s': "s' = (n', b1')" by (cases s')
    have p: "0 \<le> n" "n < maxCornerLessSharp cfg"
      "int (count_list (regionLabel b1) CORNER_SHARP) \<le> maxCornerSharp cfg"
      "int (count_list (regionLabel b1) CORNER_SHARP) +
         int (count_list (regionLabel b1) CORNER_LESS_SHARP) \<le> n"
      "count_list (regionLabel b1) SURFACE_FLAT = 0"
      "int (length (sharpPicks b1)) \<le> int (length (sharpPicks b)) + maxCornerSharp cfg"
      "int (length (sharpPicks b1)) \<le> int (length (sharpPicks b)) + n"
      "int (length (sharpPicks b1)) + int (length (lessSharpPicks b1)) \<le>
         int (length (sharpPicks b)) + int (length (lessSharpPicks b)) + n"
      "flatPicks b1 = flatPicks b"
      using P lt by (simp_all add: P_def s)
    from body s s' have "cornerBody cfg nbhd cloudSize sp j (n, b1) = Inr (c, n', b1')" by simp
    then show ?thesis
    proof (cases rule: cornerBody_cases)
      case Skip
      with p show ?thesis by (simp add: P_def s')
    next
      case Break
      have "0 \<le> n + 1" "n + 1 \<le> maxCornerLessSharp cfg"
        "int (count_list (regionLabel b1) CORNER_SHARP) +
           int (count_list (regionLabel b1) CORNER_LESS_SHARP) \<le> n + 1"
        "int (length (sharpPicks b1)) \<le> int (length (sharpPicks b)) + (n + 1)"
        "int (length (sharpPicks b1)) + int (length (lessSharpPicks b1)) \<le>
           int (length (sharpPicks b)) + int (length (lessSharpPicks b)) + (n + 1)"
        using p by linarith+
      with p(3,5,6,9) have "P (n + 1, b1)" unfolding P_def fst_conv snd_conv by blast
      with Break show ?thesis by (simp add: s')
    next
      case (Sharp scanIdx)
      let ?ls = "regionLabel b1" and ?i = "size_sub scanIdx sp"
      let ?ls' = "?ls[?i := CORNER_SHARP]"
      have a: "int (count_list ?ls' CORNER_SHARP) \<le> int (count_list ?ls CORNER_SHARP) + 1"
        by (rule count_update_int)
      have b: "int (count_list ?ls' CORNER_SHARP) + int (count_list ?ls' CORNER_LESS_SHARP)
               \<le> int (count_list ?ls CORNER_SHARP) + int (count_list ?ls CORNER_LESS_SHARP) + 1"
        by (rule count_update_pair_int) simp
      have c: "int (count_list ?ls' SURFACE_FLAT) \<le> int (count_list ?ls SURFACE_FLAT)"
        by (rule count_update_other_int) simp
      have c0: "count_list ?ls' SURFACE_FLAT = 0" using c p(5) by simp
      have f: "regionLabel b1' = ?ls'" "sharpPicks b1' = sharpPicks b1 @ [scanIdx]"
        "lessSharpPicks b1' = lessSharpPicks b1" "flatPicks b1' = flatPicks b1"
        using Sharp by simp_all
      have m: "n + 1 \<le> maxCornerSharp cfg" using Sharp by simp
      have len: "int (length (sharpPicks b1 @ [scanIdx])) = int (length (sharpPicks b1)) + 1"
        by simp
      have g: "0 \<le> n + 1" "n + 1 \<le> maxCornerLessSharp cfg"
        "int (count_list ?ls' CORNER_SHARP) \<le> maxCornerSharp cfg"
        "int (count_list ?ls' CORNER_SHARP) + int (count_list ?ls' CORNER_LESS_SHARP) \<le> n + 1"
        "int (length (sharpPicks b1 @ [scanIdx])) \<le> int (length (sharpPicks b)) + maxCornerSharp cfg"
        "int (length (sharpPicks b1 @ [scanIdx])) \<le> int (length (sharpPicks b)) + (n + 1)"
        "int (length (sharpPicks b1 @ [scanIdx])) + int (length (lessSharpPicks b1)) \<le>
           int (length (sharpPicks b)) + int (length (lessSharpPicks b)) + (n + 1)"
        unfolding len using p a b m by linarith+
      have "P (n + 1, b1')" unfolding P_def fst_conv snd_conv f
        using g c0 p(9) by blast
      with Sharp show ?thesis by (simp add: s')
    next
      case (LessSharp scanIdx)
      let ?ls = "regionLabel b1" and ?i = "size_sub scanIdx sp"
      let ?ls' = "?ls[?i := CORNER_LESS_SHARP]"
      have a: "int (count_list ?ls' CORNER_SHARP) \<le> int (count_list ?ls CORNER_SHARP)"
        by (rule count_update_other_int) simp
      have b: "int (count_list ?ls' CORNER_SHARP) + int (count_list ?ls' CORNER_LESS_SHARP)
               \<le> int (count_list ?ls CORNER_SHARP) + int (count_list ?ls CORNER_LESS_SHARP) + 1"
        by (rule count_update_pair_int) simp
      have c: "int (count_list ?ls' SURFACE_FLAT) \<le> int (count_list ?ls SURFACE_FLAT)"
        by (rule count_update_other_int) simp
      have c0: "count_list ?ls' SURFACE_FLAT = 0" using c p(5) by simp
      have f: "regionLabel b1' = ?ls'" "sharpPicks b1' = sharpPicks b1"
        "lessSharpPicks b1' = lessSharpPicks b1 @ [scanIdx]" "flatPicks b1' = flatPicks b1"
        using LessSharp by simp_all
      have len: "int (length (lessSharpPicks b1 @ [scanIdx])) = int (length (lessSharpPicks b1)) + 1"
        by simp
      have g: "0 \<le> n + 1" "n + 1 \<le> maxCornerLessSharp cfg"
        "int (count_list ?ls' CORNER_SHARP) \<le> maxCornerSharp cfg"
        "int (count_list ?ls' CORNER_SHARP) + int (count_list ?ls' CORNER_LESS_SHARP) \<le> n + 1"
        "int (length (sharpPicks b1)) \<le> int (length (sharpPicks b)) + maxCornerSharp cfg"
        "int (length (sharpPicks b1)) \<le> int (length (sharpPicks b)) + (n + 1)"
        "int (length (sharpPicks b1)) + int (length (lessSharpPicks b1 @ [scanIdx])) \<le>
           int (length (sharpPicks b)) + int (length (lessSharpPicks b)) + (n + 1)"
        unfolding len using p a b by linarith+
      have "P (n + 1, b1')" unfolding P_def fst_conv snd_conv f
        using g c0 p(9) by blast
      with LessSharp show ?thesis by (simp add: s')
    qed
  qed
  have "P r"
    by (rule cornerLoop_invariant [OF run, where P = P, OF init step])
  then have q: "fst r \<le> maxCornerLessSharp cfg"
     "int (count_list (regionLabel (snd r)) CORNER_SHARP) \<le> maxCornerSharp cfg"
     "int (count_list (regionLabel (snd r)) CORNER_SHARP) +
       int (count_list (regionLabel (snd r)) CORNER_LESS_SHARP) \<le> fst r"
     "count_list (regionLabel (snd r)) SURFACE_FLAT = 0"
     "int (length (sharpPicks (snd r))) \<le> int (length (sharpPicks b)) + maxCornerSharp cfg"
     "int (length (sharpPicks (snd r))) + int (length (lessSharpPicks (snd r))) \<le>
       int (length (sharpPicks b)) + int (length (lessSharpPicks b)) + fst r"
     "flatPicks (snd r) = flatPicks b"
    by (simp_all add: P_def)
  have "int (count_list (regionLabel (snd r)) CORNER_SHARP) +
       int (count_list (regionLabel (snd r)) CORNER_LESS_SHARP) \<le> maxCornerLessSharp cfg"
    "int (length (sharpPicks (snd r))) + int (length (lessSharpPicks (snd r))) \<le>
       int (length (sharpPicks b)) + int (length (lessSharpPicks b)) + maxCornerLessSharp cfg"
    using q(1,3,6) by linarith+
  with q(2,4,5,7) show ?thesis by blast
qed

lemma count_list_replicate_other: "x \<noteq> y \<Longrightarrow> count_list (replicate k x) y = 0"
  by (induction k) simp_all

lemma surfaceLoop_quota:
  assumes run: "surfaceLoop cfg nbhd cloudSize sp regionSize j (0, b) = Inr r"
    and F: "0 \<le> maxSurfaceFlat cfg"
  shows "int (count_list (regionLabel (snd r)) CORNER_SHARP)
           \<le> int (count_list (regionLabel b) CORNER_SHARP) \<and>
     int (count_list (regionLabel (snd r)) CORNER_SHARP) +
       int (count_list (regionLabel (snd r)) CORNER_LESS_SHARP)
       \<le> int (count_list (regionLabel b) CORNER_SHARP) +
          int (count_list (regionLabel b) CORNER_LESS_SHARP) \<and>
     int (count_list (regionLabel (snd r)) SURFACE_FLAT)
       \<le> int (count_list (regionLabel b) SURFACE_FLAT) + maxSurfaceFlat cfg \<and>
     int (length (flatPicks (snd r))) \<le> int (length (flatPicks b)) + maxSurfaceFlat cfg \<and>
     sharpPicks (snd r) = sharpPicks b \<and> lessSharpPicks (snd r) = lessSharpPicks b"
proof -
  define P where "P = (\<lambda>s :: int \<times> extraction. 0 \<le> fst s \<and> fst s \<le> maxSurfaceFlat cfg \<and>
     int (count_list (regionLabel (snd s)) CORNER_SHARP)
           \<le> int (count_list (regionLabel b) CORNER_SHARP) \<and>
     int (count_list (regionLabel (snd s)) CORNER_SHARP) +
       int (count_list (regionLabel (snd s)) CORNER_LESS_SHARP)
       \<le> int (count_list (regionLabel b) CORNER_SHARP) +
          int (count_list (regionLabel b) CORNER_LESS_SHARP) \<and>
     int (count_list (regionLabel (snd s)) SURFACE_FLAT)
       \<le> int (count_list (regionLabel b) SURFACE_FLAT) + fst s \<and>
     int (length (flatPicks (snd s))) \<le> int (length (flatPicks b)) + fst s \<and>
     sharpPicks (snd s) = sharpPicks b \<and> lessSharpPicks (snd s) = lessSharpPicks b)"
  have init: "P (0, b)" using F by (simp add: P_def)
  have step: "P s'" if P: "P s" and lt: "fst s < maxSurfaceFlat cfg"
    and body: "surfaceBody cfg nbhd cloudSize sp j s = Inr s'" for j s s'
  proof -
    obtain n b1 where s: "s = (n, b1)" by (cases s)
    obtain n' b1' where s': "s' = (n', b1')" by (cases s')
    have p: "0 \<le> n" "n < maxSurfaceFlat cfg"
      "int (count_list (regionLabel b1) CORNER_SHARP)
           \<le> int (count_list (regionLabel b) CORNER_SHARP)"
      "int (count_list (regionLabel b1) CORNER_SHARP) +
       int (count_list (regionLabel b1) CORNER_LESS_SHARP)
       \<le> int (count_list (regionLabel b) CORNER_SHARP) +
          int (count_list (regionLabel b) CORNER_LESS_SHARP)"
      "int (count_list (regionLabel b1) SURFACE_FLAT)
       \<le> int (count_list (regionLabel b) SURFACE_FLAT) + n"
      "int (length (flatPicks b1)) \<le> int (length (flatPicks b)) + n"
      "sharpPicks b1 = sharpPicks b" "lessSharpPicks b1 = lessSharpPicks b"
      using P lt by (simp_all add: P_def s)
    from body s s' have "surfaceBody cfg nbhd cloudSize sp j (n, b1) = Inr (n', b1')" by simp
    then show ?thesis
    proof (cases rule: surfaceBody_cases)
      case Skip
      with p show ?thesis by (simp add: P_def s')
    next
      case (Flat scanIdx)
      let ?ls = "regionLabel b1" and ?i = "size_sub scanIdx sp"
      let ?ls' = "?ls[?i := SURFACE_FLAT]"
      have a: "int (count_list ?ls' CORNER_SHARP) \<le> int (count_list ?ls CORNER_SHARP)"
        by (rule count_update_other_int) simp
      have b: "int (count_list ?ls' CORNER_SHARP) + int (count_list ?ls' CORNER_LESS_SHARP)
               \<le> int (count_list ?ls CORNER_SHARP) + int (count_list ?ls CORNER_LESS_SHARP)"
        using count_update_other_int [of CORNER_SHARP SURFACE_FLAT ?ls ?i]
          count_update_other_int [of CORNER_LESS_SHARP SURFACE_FLAT ?ls ?i] by simp
      have c: "int (count_list ?ls' SURFACE_FLAT) \<le> int (count_list ?ls SURFACE_FLAT) + 1"
        by (rule count_update_int)
      have f: "regionLabel b1' = ?ls'" "sharpPicks b1' = sharpPicks b1"
        "lessSharpPicks b1' = lessSharpPicks b1" "flatPicks b1' = flatPicks b1 @ [scanIdx]"
        using Flat by simp_all
      have len: "int (length (flatPicks b1 @ [scanIdx])) = int (length (flatPicks b1)) + 1"
        by simp
      have g: "0 \<le> n + 1" "n + 1 \<le> maxSurfaceFlat cfg"
        "int (count_list ?ls' CORNER_SHARP) \<le> int (count_list (regionLabel b) CORNER_SHARP)"
        "int (count_list ?ls' CORNER_SHARP) + int (count_list ?ls' CORNER_LESS_SHARP)
           \<le> int (count_list (regionLabel b) CORNER_SHARP) +
              int (count_list (regionLabel b) CORNER_LESS_SHARP)"
        "int (count_list ?ls' SURFACE_FLAT) \<le> int (count_list (regionLabel b) SURFACE_FLAT) + (n + 1)"
        "int (length (flatPicks b1 @ [scanIdx])) \<le> int (length (flatPicks b)) + (n + 1)"
        unfolding len using p a b c by linarith+
      have "P (n + 1, b1')" unfolding P_def fst_conv snd_conv f
        using g p(7,8) by blast
      with Flat show ?thesis by (simp add: s')
    qed
  qed
  have "P r"
    by (rule surfaceLoop_invariant [OF run, where P = P, OF init step])
  then have q: "fst r \<le> maxSurfaceFlat cfg"
     "int (count_list (regionLabel (snd r)) CORNER_SHARP)
           \<le> int (count_list (regionLabel b) CORNER_SHARP)"
     "int (count_list (regionLabel (snd r)) CORNER_SHARP) +
       int (count_list (regionLabel (snd r)) CORNER_LESS_SHARP)
       \<le> int (count_list (regionLabel b) CORNER_SHARP) +
          int (count_list (regionLabel b) CORNER_LESS_SHARP)"
     "int (count_list (regionLabel (snd r)) SURFACE_FLAT)
       \<le> int (count_list (regionLabel b) SURFACE_FLAT) + fst r"
     "int (length (flatPicks (snd r))) \<le> int (length (flatPicks b)) + fst r"
     "sharpPicks (snd r) = sharpPicks b" "lessSharpPicks (snd r) = lessSharpPicks b"
    by (simp_all add: P_def)
  have "int (count_list (regionLabel (snd r)) SURFACE_FLAT)
       \<le> int (count_list (regionLabel b) SURFACE_FLAT) + maxSurfaceFlat cfg"
    "int (length (flatPicks (snd r))) \<le> int (length (flatPicks b)) + maxSurfaceFlat cfg"
    using q(1,4,5) by linarith+
  with q(2,3,6,7) show ?thesis by blast
qed

subsection \<open>Claim C5: the quotas of a region\<close>

text \<open>
  C5. For every region, with quotas that are not negative: when the three loops of
  the region return, at most \<open>maxCornerSharp\<close> region indices are labelled
  \<open>CORNER_SHARP\<close>, at most \<open>maxCornerLessSharp\<close> are labelled \<open>CORNER_SHARP\<close> or
  \<open>CORNER_LESS_SHARP\<close>, and at most \<open>maxSurfaceFlat\<close> are labelled \<open>SURFACE_FLAT\<close>;
  the same bounds hold for the points the region pushes to the three clouds.
\<close>

theorem region_quotas:
  assumes S: "0 \<le> maxCornerSharp cfg" and L: "0 \<le> maxCornerLessSharp cfg"
    and F: "0 \<le> maxSurfaceFlat cfg"
    and run: "extractRegion cfg nbhd cloudSize sp ep (setRegionBuffersFor cap cloud sp ep' b) = Inr r"
  shows "int (count_list (regionLabel r) CORNER_SHARP) \<le> maxCornerSharp cfg \<and>
     int (count_list (regionLabel r) CORNER_SHARP) +
       int (count_list (regionLabel r) CORNER_LESS_SHARP) \<le> maxCornerLessSharp cfg \<and>
     int (count_list (regionLabel r) SURFACE_FLAT) \<le> maxSurfaceFlat cfg \<and>
     int (length (sharpPicks r)) \<le> int (length (sharpPicks b)) + maxCornerSharp cfg \<and>
     int (length (sharpPicks r)) + int (length (lessSharpPicks r)) \<le>
       int (length (sharpPicks b)) + int (length (lessSharpPicks b)) + maxCornerLessSharp cfg \<and>
     int (length (flatPicks r)) \<le> int (length (flatPicks b)) + maxSurfaceFlat cfg"
proof -
  let ?b0 = "setRegionBuffersFor cap cloud sp ep' b"
  from run obtain s1 s2 where
    c: "cornerLoop cfg nbhd cloudSize sp (size_sub (size_sub ep sp) 1) (0, ?b0) = Inr s1"
    and s: "surfaceLoop cfg nbhd cloudSize sp (size_sub ep sp) 0 (0, snd s1) = Inr s2"
    and l: "lessFlatLoop cloudSize sp (size_sub ep sp) 0 (snd s2) = Inr r"
    unfolding extractRegion_def bindE_eq_Inr by blast
  have fresh: "count_list (regionLabel ?b0) CORNER_SHARP = 0"
    "count_list (regionLabel ?b0) CORNER_LESS_SHARP = 0"
    "count_list (regionLabel ?b0) SURFACE_FLAT = 0"
    by (simp_all add: setRegionBuffersFor_def count_list_replicate_other)
  have picks0: "sharpPicks ?b0 = sharpPicks b" "lessSharpPicks ?b0 = lessSharpPicks b"
    "flatPicks ?b0 = flatPicks b"
    by (simp_all add: setRegionBuffersFor_def)
  note qc = cornerLoop_quota [OF c S L fresh, unfolded picks0]
  note qs = surfaceLoop_quota [OF s F]
  note fr = lessFlatLoop_frame [OF l]
  have e: "regionLabel r = regionLabel (snd s2)" "sharpPicks r = sharpPicks (snd s1)"
    "lessSharpPicks r = lessSharpPicks (snd s1)" "flatPicks r = flatPicks (snd s2)"
    using fr qs by simp_all
  have z: "int (count_list (regionLabel (snd s1)) SURFACE_FLAT) = 0"
    "int (length (flatPicks (snd s1))) = int (length (flatPicks b))" using qc by simp_all
  have "int (count_list (regionLabel (snd s2)) CORNER_SHARP) \<le> maxCornerSharp cfg"
    "int (count_list (regionLabel (snd s2)) CORNER_SHARP) +
       int (count_list (regionLabel (snd s2)) CORNER_LESS_SHARP) \<le> maxCornerLessSharp cfg"
    "int (count_list (regionLabel (snd s2)) SURFACE_FLAT) \<le> maxSurfaceFlat cfg"
    "int (length (flatPicks (snd s2))) \<le> int (length (flatPicks b)) + maxSurfaceFlat cfg"
    using qc qs z by linarith+
  with qc show ?thesis unfolding e by blast
qed

lemmas region_eval =
  extractRegion_def cornerLoop.simps surfaceLoop.simps lessFlatLoop.simps
  cornerBody_def surfaceBody_def setRegionBuffersFor_def initialExtraction_def
  exampleCap_def exampleCloud_def exampleParams_def readAt_def writeAt_def
  markAsPicked_def size_sub_def size_add_def upt_rec

lemma example_region_four:
  "extractRegion exampleParams (\<lambda>i. []) 14 5 9
     (setRegionBuffersFor (exampleCap (\<lambda>i. Fin (real i))) (exampleCloud 14) 5 8
        (initialExtraction (exampleCap (\<lambda>i. Fin (real i))) (exampleCloud 14))) =
   Inr \<lparr>regionCurvature = [Fin 5, Fin 6, Fin 7, Fin 8],
        regionLabel = [SURFACE_LESS_FLAT, CORNER_LESS_SHARP, CORNER_SHARP, CORNER_SHARP],
        regionSortIndices = [5, 6, 7, 8],
        scanNeighborPicked = [0, 0, 0, 0, 0, 0, 1, 1, 1, 0, 0, 0, 0, 0],
        sharpPicks = [8, 7], lessSharpPicks = [6], flatPicks = [],
        lessFlatPicks = [5]\<rparr>"
  by (simp add: region_eval
      cong: prod.case_cong_weak sum.case_cong_weak ctl.case_cong_weak if_weak_cong)

theorem region_quotas_witness:
  "0 \<le> maxCornerSharp exampleParams \<and> 0 \<le> maxCornerLessSharp exampleParams \<and>
   0 \<le> maxSurfaceFlat exampleParams \<and>
   extractRegion exampleParams (\<lambda>i. []) 14 5 9
     (setRegionBuffersFor (exampleCap (\<lambda>i. Fin (real i))) (exampleCloud 14) 5 8
        (initialExtraction (exampleCap (\<lambda>i. Fin (real i))) (exampleCloud 14))) =
   Inr \<lparr>regionCurvature = [Fin 5, Fin 6, Fin 7, Fin 8],
        regionLabel = [SURFACE_LESS_FLAT, CORNER_LESS_SHARP, CORNER_SHARP, CORNER_SHARP],
        regionSortIndices = [5, 6, 7, 8],
        scanNeighborPicked = [0, 0, 0, 0, 0, 0, 1, 1, 1, 0, 0, 0, 0, 0],
        sharpPicks = [8, 7], lessSharpPicks = [6], flatPicks = [],
        lessFlatPicks = [5]\<rparr> \<and>
   int (count_list [SURFACE_LESS_FLAT, CORNER_LESS_SHARP, CORNER_SHARP, CORNER_SHARP] CORNER_SHARP)
     \<le> maxCornerSharp exampleParams \<and>
   int (count_list [SURFACE_LESS_FLAT, CORNER_LESS_SHARP, CORNER_SHARP, CORNER_SHARP] CORNER_SHARP) +
   int (count_list [SURFACE_LESS_FLAT, CORNER_LESS_SHARP, CORNER_SHARP, CORNER_SHARP] CORNER_LESS_SHARP)
     \<le> maxCornerLessSharp exampleParams \<and>
   int (count_list [SURFACE_LESS_FLAT, CORNER_LESS_SHARP, CORNER_SHARP, CORNER_SHARP] SURFACE_FLAT)
     \<le> maxSurfaceFlat exampleParams"
proof -
  have S: "0 \<le> maxCornerSharp exampleParams" and L: "0 \<le> maxCornerLessSharp exampleParams"
    and F: "0 \<le> maxSurfaceFlat exampleParams"
    by (simp_all add: exampleParams_def)
  show ?thesis
    using region_quotas [OF S L F example_region_four] S L F example_region_four
    by simp
qed

subsection \<open>Facts about process\<close>

lemma detectSweep_nonempty:
  assumes "pts \<noteq> []"
  shows "detectSweep cfg st pts t =
    (if newSweepCondition cfg st (laserAngle (pts ! 0) (pts ! (length pts - 1))) t
     then Inr (True, reset t True (st\<lparr>laserRotDir := laserRotDir st * (- 1)\<rparr>))
     else Inr (False, reset t False st))"
proof -
  have l: "0 < length pts" "1 \<le> length pts" using assms by (cases pts, simp_all)+
  show ?thesis
    using l by (simp add: detectSweep_def readAt_def)
qed

lemma process_scan_error:
  assumes "pts \<noteq> []" and "extractScan cfg cap (extractValid cap pts []) = Inl e"
  shows "process cfg cap st pts t = Inl e"
  using assms(2)
  by (simp add: process_def detectSweep_nonempty [OF assms(1)] extractFeatures_def)

lemmas scan_eval =
  extractScan_def regionLoop.simps startPoints_valid endPoints_valid region_eval

lemma extractValid_exampleBatch_10:
  "extractValid (exampleCap curv) (exampleBatch 10) [] = exampleCloud 10"
  by (rule extractValid_exampleBatch) (simp_all add: exampleCap_def)

subsection \<open>Claim C2: degenerate scans\<close>

text \<open>
  C2: the code has no guard. With ten valid points region 0 has length zero
  (\<open>sp = ep = 5\<close>); the corner pass starts at \<^verbatim>\<open>j = regionSize-1\<close>, which wraps
  to \<open>2 ^ 64 - 1\<close>, passes \<^verbatim>\<open>j > 0\<close> and reads \<^verbatim>\<open>_regionSortIndices[j]\<close> out
  of bounds. With nine valid points \<^verbatim>\<open>cloudSize - 10\<close> wraps and the conversion
  of its quarter to \<^verbatim>\<open>int\<close> is undefined.
\<close>

theorem degenerate_scan_out_of_bounds:
  "regions 10 = Inr [(5, 5), (6, 5), (6, 5), (6, 4)] \<and>
   extractRegion exampleParams (\<lambda>i. []) 10 5 5
     (setRegionBuffersFor (exampleCap (\<lambda>i. Fin 0)) (exampleCloud 10) 5 4
        (initialExtraction (exampleCap (\<lambda>i. Fin 0)) (exampleCloud 10))) = Inl OutOfBounds \<and>
   extractScan exampleParams (exampleCap (\<lambda>i. Fin 0)) (exampleCloud 10) = Inl OutOfBounds \<and>
   process exampleParams (exampleCap (\<lambda>i. Fin 0)) initialState (exampleBatch 10) 1
     = Inl OutOfBounds \<and>
   extractScan exampleParams (exampleCap (\<lambda>i. Fin 0)) (exampleCloud 9)
     = Inl IntConversionUndefined"
proof -
  have r: "regions 10 = Inr [(5, 5), (6, 5), (6, 5), (6, 4)]"
    by (simp add: regions_def startPoints_valid endPoints_valid)
  have a: "extractRegion exampleParams (\<lambda>i. []) 10 5 5
     (setRegionBuffersFor (exampleCap (\<lambda>i. Fin 0)) (exampleCloud 10) 5 4
        (initialExtraction (exampleCap (\<lambda>i. Fin 0)) (exampleCloud 10))) = Inl OutOfBounds"
    by (simp add: region_eval
        cong: prod.case_cong_weak sum.case_cong_weak ctl.case_cong_weak if_weak_cong)
  have b: "extractScan exampleParams (exampleCap (\<lambda>i. Fin 0)) (exampleCloud 10) = Inl OutOfBounds"
    by (simp add: scan_eval
        cong: prod.case_cong_weak sum.case_cong_weak ctl.case_cong_weak if_weak_cong)
  have ne: "exampleBatch 10 \<noteq> []" by (simp add: exampleBatch_def upt_rec)
  have c: "process exampleParams (exampleCap (\<lambda>i. Fin 0)) initialState (exampleBatch 10) 1
     = Inl OutOfBounds"
    by (rule process_scan_error [OF ne]) (simp add: extractValid_exampleBatch_10 b)
  have d: "extractScan exampleParams (exampleCap (\<lambda>i. Fin 0)) (exampleCloud 9)
     = Inl IntConversionUndefined"
    by (simp add: extractScan_def startPoints_def int_of_quotient_def size_sub_def exampleCloud_def)
  show ?thesis using r a b c d by simp
qed

subsection \<open>Claim C3: the corner pass\<close>

lemma cornerPassOver_stop:
  "\<not> fst s < maxCornerLessSharp cfg \<Longrightarrow> cornerPassOver cfg nbhd cloudSize sp js s = Inr s"
  by (cases js) simp_all

text \<open>The loop of the source runs the body over the positions \<open>j, j - 1, ..., 1\<close>.\<close>

lemma cornerLoop_positions:
  "cornerLoop cfg nbhd cloudSize sp j s = cornerPassOver cfg nbhd cloudSize sp (rev [1 ..< Suc j]) s"
proof (induction j arbitrary: s)
  case 0
  show ?case by (simp add: cornerLoop.simps)
next
  case (Suc j)
  have r: "rev [1 ..< Suc (Suc j)] = Suc j # rev [1 ..< Suc j]" by simp
  show ?case
  proof (cases "fst s < maxCornerLessSharp cfg")
    case False
    then show ?thesis
      by (simp add: cornerLoop.simps [of _ _ _ _ "Suc j"] cornerPassOver_stop del: upt_Suc)
  next
    case True
    show ?thesis
      unfolding r cornerLoop.simps [of cfg nbhd cloudSize sp "Suc j" s]
      using True Suc.IH
      by (simp split: sum.splits prod.splits ctl.splits del: upt_Suc)
  qed
qed

text \<open>
  C3: the corner pass of the code does not look at all candidates of the region.
  The loop runs from \<^verbatim>\<open>j = regionSize-1\<close> while \<^verbatim>\<open>j > 0\<close>, so position 0 of
  the sort buffer is never examined. In a region of two points, both with
  curvature above the threshold and unpicked, with room for two sharp corners,
  the code labels one corner (index 6); the pass over all positions, as the
  claim has it, labels both (indices 6 and 5).
\<close>

theorem corner_pass_skips_position_zero:
  "cornerLoop exampleParams (\<lambda>i. []) 12 5 (size_sub (size_sub 7 5) 1)
     (0, setRegionBuffersFor (exampleCap (\<lambda>i. Fin (real i))) (exampleCloud 12) 5 6
           (initialExtraction (exampleCap (\<lambda>i. Fin (real i))) (exampleCloud 12))) =
   Inr (1, \<lparr>regionCurvature = [Fin 5, Fin 6],
        regionLabel = [SURFACE_LESS_FLAT, CORNER_SHARP],
        regionSortIndices = [5, 6],
        scanNeighborPicked = [0, 0, 0, 0, 0, 0, 1, 0, 0, 0, 0, 0],
        sharpPicks = [6], lessSharpPicks = [], flatPicks = [], lessFlatPicks = []\<rparr>) \<and>
   cornerPassSpec exampleParams (\<lambda>i. []) 12 5 (size_sub 7 5)
     (0, setRegionBuffersFor (exampleCap (\<lambda>i. Fin (real i))) (exampleCloud 12) 5 6
           (initialExtraction (exampleCap (\<lambda>i. Fin (real i))) (exampleCloud 12))) =
   Inr (2, \<lparr>regionCurvature = [Fin 5, Fin 6],
        regionLabel = [CORNER_SHARP, CORNER_SHARP],
        regionSortIndices = [5, 6],
        scanNeighborPicked = [0, 0, 0, 0, 0, 1, 1, 0, 0, 0, 0, 0],
        sharpPicks = [6, 5], lessSharpPicks = [], flatPicks = [], lessFlatPicks = []\<rparr>)"
  by (simp add: region_eval cornerPassSpec_def
      cong: prod.case_cong_weak sum.case_cong_weak ctl.case_cong_weak if_weak_cong)

subsection \<open>The valid points of a batch\<close>

lemma extractValid_acc:
  "extractValid cap pts acc =
     acc @ map (\<lambda>p. if hasIMUData cap then transformToStartIMU cap 0 (remapAxes p) else remapAxes p)
             (filter (\<lambda>p. \<not> skipped (remapAxes p)) pts)"
  by (induction pts arbitrary: acc) (simp_all add: relTime_def)

lemma skipped_remapAxes_iff: "skipped (remapAxes p) \<longleftrightarrow> malformed p"
  by (simp add: skipped_def malformed_def squaredNorm_def)

lemma detectSweep_drop_inner:
  assumes "pre \<noteq> []" and "post \<noteq> []"
  shows "detectSweep cfg st (pre @ p # post) t = detectSweep cfg st (pre @ post) t"
proof -
  have f: "(pre @ p # post) ! 0 = pre ! 0" "(pre @ post) ! 0 = pre ! 0"
    using assms by (simp_all add: nth_append)
  have ne: "pre @ p # post \<noteq> []" "pre @ post \<noteq> []" using assms by simp_all
  have "(pre @ p # post) ! (length (pre @ p # post) - 1) = last (pre @ p # post)"
    "(pre @ post) ! (length (pre @ post) - 1) = last (pre @ post)"
    by (rule last_conv_nth [OF ne(1), symmetric], rule last_conv_nth [OF ne(2), symmetric])
  then have l: "(pre @ p # post) ! (length (pre @ p # post) - 1) = last post"
    "(pre @ post) ! (length (pre @ post) - 1) = last post"
    using assms by simp_all
  show ?thesis
    unfolding detectSweep_nonempty [OF ne(1)] detectSweep_nonempty [OF ne(2)] f l ..
qed

lemma laserAngle_float_range: "float_range (laserAngle a b)"
  unfolding laserAngle_def by (rule fatan2_float_range)

lemma laserAngle_sign_test:
  "flt_less (fmul (laserAngle a b) (Fin (of_int d))) (Fin 0) = signDisagrees (laserAngle a b) d"
  by (rule sign_test [OF laserAngle_float_range])

lemma detectSweep_hd_last:
  assumes "pts \<noteq> []"
  shows "detectSweep cfg st pts t =
    (if newSweepCondition cfg st (laserAngle (hd pts) (last pts)) t
     then Inr (True, reset t True (st\<lparr>laserRotDir := laserRotDir st * (- 1)\<rparr>))
     else Inr (False, reset t False st))"
proof -
  have h: "pts ! 0 = hd pts" by (rule hd_conv_nth [OF assms, symmetric])
  have la: "pts ! (length pts - 1) = last pts" by (rule last_conv_nth [OF assms, symmetric])
  show ?thesis
    unfolding detectSweep_nonempty [OF assms] h la ..
qed


lemma extractFeatures_frame:
  assumes "extractFeatures cfg cap s = Inr s'"
  shows "laserRotDir s' = laserRotDir s \<and> sweepStart s' = sweepStart s \<and>
         laserCloud s' = laserCloud s \<and>
         (\<exists>new. surfacePointsLessFlat s' = surfacePointsLessFlat s @ new)"
proof -
  from assms obtain b where b: "extractScan cfg cap (laserCloud s) = Inr b"
    and s': "Inr (s\<lparr>cornerPointsSharp :=
                cornerPointsSharp s @ cloudPoints (laserCloud s) (sharpPicks b),
             cornerPointsLessSharp :=
                cornerPointsLessSharp s @ cloudPoints (laserCloud s) (lessSharpPicks b),
             surfacePointsFlat :=
                surfacePointsFlat s @ cloudPoints (laserCloud s) (flatPicks b),
             surfacePointsLessFlat :=
                surfacePointsLessFlat s @
                downSize cap (lessFlatFilterSize cfg)
                  (cloudPoints (laserCloud s) (lessFlatPicks b))\<rparr>) = (Inr s' :: error + ScanRegistration)"
    unfolding extractFeatures_def bindE_eq_Inr by blast
  from s' have "s' = s\<lparr>cornerPointsSharp :=
                cornerPointsSharp s @ cloudPoints (laserCloud s) (sharpPicks b),
             cornerPointsLessSharp :=
                cornerPointsLessSharp s @ cloudPoints (laserCloud s) (lessSharpPicks b),
             surfacePointsFlat :=
                surfacePointsFlat s @ cloudPoints (laserCloud s) (flatPicks b),
             surfacePointsLessFlat :=
                surfacePointsLessFlat s @
                downSize cap (lessFlatFilterSize cfg)
                  (cloudPoints (laserCloud s) (lessFlatPicks b))\<rparr>"
    by simp
  then show ?thesis by simp
qed

subsection \<open>The points of the clouds are points of the scan buffer\<close>

lemma cornerLoop_in_cloud:
  assumes run: "cornerLoop cfg nbhd cloudSize sp j s = Inr r"
    and P: "picksInCloud cloudSize (snd s)"
  shows "picksInCloud cloudSize (snd r)"
proof (rule cornerLoop_invariant [OF run, where P = "\<lambda>s. picksInCloud cloudSize (snd s)"])
  show "picksInCloud cloudSize (snd s)" by (rule P)
next
  fix j' s1 c s2
  assume I: "picksInCloud cloudSize (snd s1)"
    and body: "cornerBody cfg nbhd cloudSize sp j' s1 = Inr (c, s2)"
  obtain n b where s1: "s1 = (n, b)" by (cases s1)
  obtain n' b' where s2: "s2 = (n', b')" by (cases s2)
  from body have "cornerBody cfg nbhd cloudSize sp j' (n, b) = Inr (c, n', b')"
    by (simp add: s1 s2)
  then have "picksInCloud cloudSize b'"
    using I unfolding s1 by (cases rule: cornerBody_cases) (simp_all add: picksInCloud_def)
  then show "picksInCloud cloudSize (snd s2)" by (simp add: s2)
qed

lemma surfaceLoop_in_cloud:
  assumes run: "surfaceLoop cfg nbhd cloudSize sp regionSize j s = Inr r"
    and P: "picksInCloud cloudSize (snd s)"
  shows "picksInCloud cloudSize (snd r)"
proof (rule surfaceLoop_invariant [OF run, where P = "\<lambda>s. picksInCloud cloudSize (snd s)"])
  show "picksInCloud cloudSize (snd s)" by (rule P)
next
  fix j' s1 s2
  assume I: "picksInCloud cloudSize (snd s1)"
    and body: "surfaceBody cfg nbhd cloudSize sp j' s1 = Inr s2"
  obtain n b where s1: "s1 = (n, b)" by (cases s1)
  obtain n' b' where s2: "s2 = (n', b')" by (cases s2)
  from body have "surfaceBody cfg nbhd cloudSize sp j' (n, b) = Inr (n', b')"
    by (simp add: s1 s2)
  then have "picksInCloud cloudSize b'"
    using I unfolding s1 by (cases rule: surfaceBody_cases) (simp_all add: picksInCloud_def)
  then show "picksInCloud cloudSize (snd s2)" by (simp add: s2)
qed

lemma lessFlatLoop_in_cloud:
  assumes run: "lessFlatLoop cloudSize sp regionSize j b = Inr r"
    and P: "picksInCloud cloudSize b"
  shows "picksInCloud cloudSize r"
proof -
  have "(\<lambda>(j' :: nat) (b' :: extraction). picksInCloud cloudSize b') (max j regionSize) r"
  proof (rule lessFlatLoop_invariant [OF run,
        where P = "\<lambda>(j' :: nat) (b' :: extraction). picksInCloud cloudSize b'"])
    show "picksInCloud cloudSize b" by (rule P)
  next
    fix j' b'
    assume "picksInCloud cloudSize b'" and "size_add sp j' < cloudSize"
    then show "picksInCloud cloudSize (b'\<lparr>lessFlatPicks := lessFlatPicks b' @ [size_add sp j']\<rparr>)"
      by (simp add: picksInCloud_def)
  next
    fix j' b'
    assume "picksInCloud cloudSize b'"
    then show "picksInCloud cloudSize b'" .
  qed
  then show ?thesis .
qed

lemma region_in_cloud:
  assumes run: "extractRegion cfg nbhd cloudSize sp ep b = Inr r"
    and P: "picksInCloud cloudSize b"
  shows "picksInCloud cloudSize r"
proof -
  from run obtain s1 s2 where
    c: "cornerLoop cfg nbhd cloudSize sp (size_sub (size_sub ep sp) 1) (0, b) = Inr s1"
    and s: "surfaceLoop cfg nbhd cloudSize sp (size_sub ep sp) 0 (0, snd s1) = Inr s2"
    and l: "lessFlatLoop cloudSize sp (size_sub ep sp) 0 (snd s2) = Inr r"
    unfolding extractRegion_def bindE_eq_Inr by blast
  from cornerLoop_in_cloud [OF c] P have "picksInCloud cloudSize (snd s1)" by simp
  with surfaceLoop_in_cloud [OF s] have "picksInCloud cloudSize (snd s2)" by simp
  with lessFlatLoop_in_cloud [OF l] show ?thesis .
qed

lemma regionLoop_in_cloud:
  assumes "regionLoop cfg cap cloud sps eps i b = Inr r"
    and "picksInCloud (length cloud) b"
  shows "picksInCloud (length cloud) r"
  using assms
proof (induction cfg cap cloud sps eps i b rule: regionLoop.induct)
  case (1 cfg cap cloud sps eps i b)
  show ?case
  proof (cases "i < nFeatureRegions cfg")
    case False
    with "1.prems" show ?thesis by (simp add: regionLoop.simps)
  next
    case True
    from True "1.prems"(1) obtain sp where rsp: "readAt sps i = Inr sp"
      by (cases "readAt sps i") (auto simp: regionLoop.simps)
    from True "1.prems"(1) rsp obtain ep where rep: "readAt eps i = Inr ep"
      by (cases "readAt eps i") (auto simp: regionLoop.simps)
    let ?b0 = "setRegionBuffersFor cap cloud sp (size_sub ep 1) b"
    from True "1.prems"(1) rsp rep obtain b' where
      reg: "extractRegion cfg (neighborhood cap cloud) (length cloud) sp ep ?b0 = Inr b'"
      by (cases "extractRegion cfg (neighborhood cap cloud) (length cloud) sp ep ?b0")
        (auto simp: regionLoop.simps)
    from True "1.prems"(1) rsp rep reg have
      rec: "regionLoop cfg cap cloud sps eps (i + 1) b' = Inr r"
      by (simp add: regionLoop.simps)
    have "picksInCloud (length cloud) ?b0"
      using "1.prems"(2) by (simp add: picksInCloud_def setRegionBuffersFor_def)
    from region_in_cloud [OF reg this] have P': "picksInCloud (length cloud) b'" .
    show ?thesis
      by (rule "1.IH" [OF True rsp rep reg rec P'])
  qed
qed

lemma extractScan_in_cloud:
  assumes "extractScan cfg cap cloud = Inr b"
  shows "picksInCloud (length cloud) b"
proof -
  from assms obtain sps eps where
    loop: "regionLoop cfg cap cloud sps eps 0 (initialExtraction cap cloud) = Inr b"
    unfolding extractScan_def bindE_eq_Inr by blast
  have "picksInCloud (length cloud) (initialExtraction cap cloud)"
    by (simp add: picksInCloud_def initialExtraction_def)
  from regionLoop_in_cloud [OF loop this] show ?thesis .
qed

lemma cloudPoints_subset:
  assumes "list_all (\<lambda>p. p < length cloud) picks"
  shows "set (cloudPoints cloud picks) \<subseteq> set cloud"
  using assms by (auto simp: cloudPoints_def list_all_iff)

lemma detectSweep_clears:
  assumes "detectSweep cfg st pts t = Inr (newSweep, st')"
  shows "cornerPointsSharp st' = [] \<and> cornerPointsLessSharp st' = [] \<and>
         surfacePointsFlat st' = [] \<and>
         surfacePointsLessFlat st' = (if newSweep then [] else surfacePointsLessFlat st)"
  using assms
  by (auto simp: detectSweep_def bindE_eq_Inr reset_def split: if_splits)

lemma process_outputs:
  assumes "process cfg cap st pts t = Inr st'"
  shows "laserCloud st' = extractValid cap pts [] \<and>
         set (cornerPointsSharp st') \<subseteq> set (laserCloud st') \<and>
         set (cornerPointsLessSharp st') \<subseteq> set (laserCloud st') \<and>
         set (surfacePointsFlat st') \<subseteq> set (laserCloud st') \<and>
         (\<exists>xs. set xs \<subseteq> set (laserCloud st') \<and>
            (surfacePointsLessFlat st' = downSize cap (lessFlatFilterSize cfg) xs \<or>
             surfacePointsLessFlat st' =
               surfacePointsLessFlat st @ downSize cap (lessFlatFilterSize cfg) xs))"
proof -
  let ?cl = "extractValid cap pts []"
  from assms obtain ns s1 where d: "detectSweep cfg st pts t = Inr (ns, s1)"
    and e: "extractFeatures cfg cap (s1\<lparr>laserCloud := ?cl\<rparr>) = Inr st'"
    unfolding process_def bindE_eq_Inr by auto
  note c = detectSweep_clears [OF d]
  from e obtain b where b: "extractScan cfg cap ?cl = Inr b"
    and s': "st' = s1\<lparr>laserCloud := ?cl,
             cornerPointsSharp := cornerPointsSharp s1 @ cloudPoints ?cl (sharpPicks b),
             cornerPointsLessSharp := cornerPointsLessSharp s1 @ cloudPoints ?cl (lessSharpPicks b),
             surfacePointsFlat := surfacePointsFlat s1 @ cloudPoints ?cl (flatPicks b),
             surfacePointsLessFlat :=
                surfacePointsLessFlat s1 @
                downSize cap (lessFlatFilterSize cfg) (cloudPoints ?cl (lessFlatPicks b))\<rparr>"
    unfolding extractFeatures_def bindE_eq_Inr by auto
  from extractScan_in_cloud [OF b] have
    p: "list_all (\<lambda>p. p < length ?cl) (sharpPicks b)"
       "list_all (\<lambda>p. p < length ?cl) (lessSharpPicks b)"
       "list_all (\<lambda>p. p < length ?cl) (flatPicks b)"
       "list_all (\<lambda>p. p < length ?cl) (lessFlatPicks b)"
    by (simp_all add: picksInCloud_def)
  note q = p [THEN cloudPoints_subset]
  have l: "laserCloud st' = ?cl" by (simp add: s')
  have a1: "set (cornerPointsSharp st') \<subseteq> set (laserCloud st')"
    using q(1) c by (simp add: s')
  have a2: "set (cornerPointsLessSharp st') \<subseteq> set (laserCloud st')"
    using q(2) c by (simp add: s')
  have a3: "set (surfacePointsFlat st') \<subseteq> set (laserCloud st')"
    using q(3) c by (simp add: s')
  have a4: "set (cloudPoints ?cl (lessFlatPicks b)) \<subseteq> set (laserCloud st') \<and>
            (surfacePointsLessFlat st' =
               downSize cap (lessFlatFilterSize cfg) (cloudPoints ?cl (lessFlatPicks b)) \<or>
             surfacePointsLessFlat st' =
               surfacePointsLessFlat st @
               downSize cap (lessFlatFilterSize cfg) (cloudPoints ?cl (lessFlatPicks b)))"
    using q(4) c by (cases ns) (simp_all add: s')
  show ?thesis using l a1 a2 a3 a4 by blast
qed

lemma extractValid_not_skipped:
  assumes "\<not> hasIMUData cap" and "q \<in> set (extractValid cap pts [])"
  shows "\<not> skipped q"
  using assms by (auto simp: extractValid_acc)

lemma extractValid_no_malformed:
  assumes "\<not> hasIMUData cap" and "malformed p"
  shows "remapAxes p \<notin> set (extractValid cap pts [])"
  using extractValid_not_skipped [OF assms(1), of "remapAxes p" pts] assms(2)
  by (auto simp: skipped_remapAxes_iff)

subsection \<open>Example runs of process\<close>

lemmas flt_eval =
  fmul_def fadd_def fsub_def fdiv_def round32_def signed_zero_def signed_inf_def
  fatan2_def atan2_magnitude_def

lemma round_to_two_pow_inverse:
  assumes "j \<le> 149"
  shows "round_to s (1 / 2 ^ j) = Fin ((if s then - 1 else 1) * (1 / 2 ^ j))"
  using round_to_dyadic [of 1 j s] assms by simp

lemma unit_points_kept:
  "\<not> skipped (remapAxes frontPoint)" "\<not> skipped (remapAxes sidePoint)"
  "\<not> skipped (remapAxes backPoint)"
proof -
  have "\<not> skipped \<lparr>px = Fin (real 0), py = Fin (real 0), pz = Fin (real 1)\<rparr>"
    by (subst skipped_nat) simp_all
  then show "\<not> skipped (remapAxes frontPoint)"
    by (simp add: remapAxes_def frontPoint_def)
  have "\<not> skipped \<lparr>px = Fin (real 1), py = Fin (real 0), pz = Fin (real 0)\<rparr>"
    by (subst skipped_nat) simp_all
  then show "\<not> skipped (remapAxes sidePoint)"
    by (simp add: remapAxes_def sidePoint_def)
  show "\<not> skipped (remapAxes backPoint)"
    by (simp add: skipped_def remapAxes_def backPoint_def flt_eval double_0_0001_def)
qed

lemma tinyPoint_skipped: "skipped (remapAxes tinyPoint)"
proof -
  have "round_to False (1 / 1048576) = Fin (1 / 1048576)"
    using round_to_two_pow_inverse [of 20 False] by simp
  then show ?thesis
    by (simp add: skipped_def remapAxes_def tinyPoint_def flt_eval double_0_0001_def)
qed

lemma normalized_frontPoint: "normalized frontPoint = frontPoint"
  by (simp add: normalized_def calcPointDistance_def frontPoint_def flt_eval)

lemma normalized_sidePoint: "normalized sidePoint = sidePoint"
  by (simp add: normalized_def calcPointDistance_def sidePoint_def flt_eval)

lemma normalized_backPoint: "normalized backPoint = backPoint"
  by (simp add: normalized_def calcPointDistance_def backPoint_def flt_eval)

lemma normalized_tinyPoint: "normalized tinyPoint = frontPoint"
proof -
  have r: "round_to False (1 / 1048576) = Fin (1 / 1048576)"
    using round_to_two_pow_inverse [of 20 False] by simp
  have q: "sqrt (1 / 1048576) = 1 / 1024"
    by (rule real_sqrt_unique) (simp_all add: power2_eq_square)
  have t: "round_to False (1 / 1024) = Fin (1 / 1024)"
    using round_to_two_pow_inverse [of 10 False] by simp
  have "calcPointDistance tinyPoint = Fin (1 / 1024)"
    by (simp add: calcPointDistance_def tinyPoint_def flt_eval r q t)
  then show ?thesis
    by (simp add: normalized_def tinyPoint_def frontPoint_def flt_eval)
qed

lemma laserAngle_front_side: "laserAngle frontPoint sidePoint = round_to True (pi / 4)"
  unfolding laserAngle_def normalized_frontPoint normalized_sidePoint
  by (simp add: frontPoint_def sidePoint_def flt_eval atan2_def arctan_one)

lemma laserAngle_tiny_side: "laserAngle tinyPoint sidePoint = round_to True (pi / 4)"
  unfolding laserAngle_def normalized_tinyPoint normalized_sidePoint
  by (simp add: frontPoint_def sidePoint_def flt_eval atan2_def arctan_one)

lemma laserAngle_back_side: "laserAngle backPoint sidePoint = round_to False (pi / 4)"
  unfolding laserAngle_def normalized_backPoint normalized_sidePoint
  by (simp add: backPoint_def sidePoint_def flt_eval atan2_def arctan_one)

lemma quarter_pi_in_range: "2 powi (- 149) \<le> pi / 4"
proof -
  have "(2 :: real) powi (- 149) \<le> 2 powi (- 1)" by (intro power_int_increasing) simp_all
  then have "(2 :: real) powi (- 149) \<le> 1 / 2" by (simp add: power_int_minus)
  moreover have "2 \<le> pi" by (rule pi_ge_two)
  ultimately show ?thesis by linarith
qed

lemma signDisagrees_quarter_pi:
  "signDisagrees (round_to True (pi / 4)) 1" "\<not> signDisagrees (round_to False (pi / 4)) 1"
  by (simp_all add: signDisagrees_def round_to_sign [OF quarter_pi_in_range])

lemma nth_exampleCloud: "i < n \<Longrightarrow> exampleCloud n ! i = examplePoint i"
  by (simp add: exampleCloud_def)

lemma extractScan_flat_19:
  "extractScan exampleParams flatCap (exampleCloud 19) =
     Inr \<lparr>regionCurvature = [Fin 0], regionLabel = [SURFACE_FLAT], regionSortIndices = [12],
          scanNeighborPicked = [0, 0, 0, 0, 0, 1, 1, 0, 1, 0, 1, 0, 1, 0, 0, 0, 0, 0, 0],
          sharpPicks = [], lessSharpPicks = [], flatPicks = [5, 6, 8, 10, 12],
          lessFlatPicks = [5, 6, 8, 10, 12]\<rparr>"
  by (simp add: scan_eval flatCap_def
      cong: prod.case_cong_weak sum.case_cong_weak ctl.case_cong_weak if_weak_cong)

lemma flatCap_no_IMU: "\<not> hasIMUData flatCap"
  by (simp add: flatCap_def exampleCap_def)

lemma extractValid_exampleBatch_19:
  "extractValid flatCap (exampleBatch 19) [] = exampleCloud 19"
  by (rule extractValid_exampleBatch [OF flatCap_no_IMU]) simp

lemma process_flat_19:
  "process exampleParams flatCap initialState (exampleBatch 19) (1 / 20) =
     Inr (initialState
       \<lparr>laserCloud := exampleCloud 19,
        surfacePointsFlat :=
          [examplePoint 5, examplePoint 6, examplePoint 8, examplePoint 10, examplePoint 12],
        surfacePointsLessFlat :=
          [examplePoint 5, examplePoint 6, examplePoint 8, examplePoint 10, examplePoint 12]\<rparr>)"
proof -
  have ne: "exampleBatch 19 \<noteq> []" by (simp add: exampleBatch_def upt_rec)
  have d: "detectSweep exampleParams initialState (exampleBatch 19) (1 / 20) =
      Inr (False, reset (1 / 20) False initialState)"
    by (simp add: detectSweep_hd_last [OF ne] newSweepCondition_def initialState_def
        exampleParams_def)
  have r: "reset (1 / 20) False initialState = initialState"
    by (simp add: reset_def initialState_def)
  have c: "cloudPoints (exampleCloud 19) [5, 6, 8, 10, 12] =
      [examplePoint 5, examplePoint 6, examplePoint 8, examplePoint 10, examplePoint 12]"
    by (simp add: cloudPoints_def nth_exampleCloud)
  have n: "cloudPoints (exampleCloud 19) [] = []" by (simp add: cloudPoints_def)
  have ds: "downSize flatCap l c = c" for l c by (simp add: flatCap_def exampleCap_def)
  show ?thesis
    unfolding process_def d bindE_Inr snd_conv r
    by (simp add: extractValid_exampleBatch_19 extractFeatures_def extractScan_flat_19 c n ds
        initialState_def)
qed

lemma extractValid_append:
  "extractValid cap (xs @ ys) acc = extractValid cap ys (extractValid cap xs acc)"
  by (induction xs arbitrary: acc) simp_all

lemma extractValid_sweepBatch:
  "extractValid flatCap sweepBatch [] =
     remapAxes frontPoint # map examplePoint [1 ..< 18] @ [remapAxes sidePoint]"
proof -
  have m: "extractValid flatCap (map exampleRaw [1 ..< 18]) [remapAxes frontPoint] =
      [remapAxes frontPoint] @ map examplePoint [1 ..< 18]"
    by (rule extractValid_exampleRaw [OF flatCap_no_IMU]) simp
  have "extractValid flatCap sweepBatch [] =
      extractValid flatCap [sidePoint]
        (extractValid flatCap (map exampleRaw [1 ..< 18]) [remapAxes frontPoint])"
    unfolding sweepBatch_def
    by (simp add: extractValid_append unit_points_kept flatCap_no_IMU del: upt_Suc)
  then show ?thesis
    unfolding m by (simp add: unit_points_kept flatCap_no_IMU del: upt_Suc)
qed

lemma extractScan_sweepBatch:
  "extractScan exampleParams flatCap
     (remapAxes frontPoint # map examplePoint [1 ..< 18] @ [remapAxes sidePoint]) =
     Inr \<lparr>regionCurvature = [Fin 0], regionLabel = [SURFACE_FLAT], regionSortIndices = [12],
          scanNeighborPicked = [0, 0, 0, 0, 0, 1, 1, 0, 1, 0, 1, 0, 1, 0, 0, 0, 0, 0, 0],
          sharpPicks = [], lessSharpPicks = [], flatPicks = [5, 6, 8, 10, 12],
          lessFlatPicks = [5, 6, 8, 10, 12]\<rparr>"
  by (simp add: scan_eval flatCap_def
      cong: prod.case_cong_weak sum.case_cong_weak ctl.case_cong_weak if_weak_cong)

lemma nth_sweepCloud:
  "0 < k \<Longrightarrow> k < 18 \<Longrightarrow> (x # map examplePoint [1 ..< 18] @ [y]) ! k = examplePoint k"
  by (simp add: nth_Cons' nth_append del: upt_Suc)

lemma process_sweepBatch:
  "process exampleParams flatCap midSweepState sweepBatch 1 =
     Inr \<lparr>laserRotDir = - 1, sweepStart = 1,
          laserCloud = remapAxes frontPoint # map examplePoint [1 ..< 18] @ [remapAxes sidePoint],
          cornerPointsSharp = [], cornerPointsLessSharp = [],
          surfacePointsFlat =
            [examplePoint 5, examplePoint 6, examplePoint 8, examplePoint 10, examplePoint 12],
          surfacePointsLessFlat =
            [examplePoint 5, examplePoint 6, examplePoint 8, examplePoint 10, examplePoint 12]\<rparr>"
proof -
  have ne: "sweepBatch \<noteq> []" by (simp add: sweepBatch_def)
  have hl: "hd sweepBatch = frontPoint" "last sweepBatch = sidePoint"
    by (simp_all add: sweepBatch_def)
  have s: "signDisagrees (laserAngle frontPoint sidePoint) 1"
    unfolding laserAngle_front_side by (rule signDisagrees_quarter_pi)
  have d: "detectSweep exampleParams midSweepState sweepBatch 1 =
      Inr (True, reset 1 True (midSweepState\<lparr>laserRotDir := - 1\<rparr>))"
    using s
    by (simp add: detectSweep_hd_last [OF ne] hl newSweepCondition_def
        laserAngle_sign_test [of _ _ 1, simplified] midSweepState_def initialState_def
        exampleParams_def)
  have r: "reset 1 True (midSweepState\<lparr>laserRotDir := - 1\<rparr>) =
      \<lparr>laserRotDir = - 1, sweepStart = 1, laserCloud = [], cornerPointsSharp = [],
       cornerPointsLessSharp = [], surfacePointsFlat = [], surfacePointsLessFlat = []\<rparr>"
    by (simp add: reset_def midSweepState_def initialState_def)
  have c: "cloudPoints (remapAxes frontPoint # map examplePoint [1 ..< 18] @ [remapAxes sidePoint])
      [5, 6, 8, 10, 12] =
      [examplePoint 5, examplePoint 6, examplePoint 8, examplePoint 10, examplePoint 12]"
    unfolding cloudPoints_def list.map
    using nth_sweepCloud [of 5] nth_sweepCloud [of 6] nth_sweepCloud [of 8]
      nth_sweepCloud [of 10] nth_sweepCloud [of 12]
    by (simp del: upt_Suc)
  have ds: "downSize flatCap l c = c" for l c by (simp add: flatCap_def exampleCap_def)
  define cl where
    "cl = remapAxes frontPoint # map examplePoint [1 ..< 18] @ [remapAxes sidePoint]"
  have e: "extractValid flatCap sweepBatch [] = cl"
    by (simp only: extractValid_sweepBatch cl_def)
  have x: "extractScan exampleParams flatCap cl =
      Inr \<lparr>regionCurvature = [Fin 0], regionLabel = [SURFACE_FLAT], regionSortIndices = [12],
          scanNeighborPicked = [0, 0, 0, 0, 0, 1, 1, 0, 1, 0, 1, 0, 1, 0, 0, 0, 0, 0, 0],
          sharpPicks = [], lessSharpPicks = [], flatPicks = [5, 6, 8, 10, 12],
          lessFlatPicks = [5, 6, 8, 10, 12]\<rparr>"
    by (simp only: extractScan_sweepBatch cl_def)
  have c': "cloudPoints cl [5, 6, 8, 10, 12] =
      [examplePoint 5, examplePoint 6, examplePoint 8, examplePoint 10, examplePoint 12]"
    by (simp only: c cl_def)
  have n: "cloudPoints cl [] = []" by (simp add: cloudPoints_def)
  show ?thesis
    unfolding process_def d bindE_Inr snd_conv r e cl_def [symmetric]
    by (simp add: extractFeatures_def x c' n ds)
qed

subsection \<open>Claim C10: the reads of the first and the last raw point\<close>

lemma extractScan_empty: "extractScan cfg cap [] = Inl IntConversionUndefined"
  by (simp add: extractScan_def startPoints_def int_of_quotient_def size_sub_def)

lemma extractValid_all_malformed:
  assumes "\<forall>p \<in> set pts. malformed p"
  shows "extractValid cap pts [] = []"
  using assms by (simp add: extractValid_acc skipped_remapAxes_iff)

lemma tinyBackPoint_skipped: "skipped (remapAxes tinyBackPoint)"
proof -
  have "round_to False (1 / 1048576) = Fin (1 / 1048576)"
    using round_to_two_pow_inverse [of 20 False] by simp
  then show ?thesis
    by (simp add: skipped_def remapAxes_def tinyBackPoint_def flt_eval double_0_0001_def)
qed

lemma normalized_tinyBackPoint: "normalized tinyBackPoint = backPoint"
proof -
  have r: "round_to False (1 / 1048576) = Fin (1 / 1048576)"
    using round_to_two_pow_inverse [of 20 False] by simp
  have q: "sqrt (1 / 1048576) = 1 / 1024"
    by (rule real_sqrt_unique) (simp_all add: power2_eq_square)
  have t: "round_to False (1 / 1024) = Fin (1 / 1024)"
    using round_to_two_pow_inverse [of 10 False] by simp
  have "calcPointDistance tinyBackPoint = Fin (1 / 1024)"
    by (simp add: calcPointDistance_def tinyBackPoint_def flt_eval r q t)
  then show ?thesis
    by (simp add: normalized_def tinyBackPoint_def backPoint_def flt_eval)
qed

lemma laserAngle_tinyBack_side: "laserAngle tinyBackPoint sidePoint = round_to False (pi / 4)"
  unfolding laserAngle_def normalized_tinyBackPoint normalized_sidePoint
  by (simp add: backPoint_def sidePoint_def flt_eval atan2_def arctan_one)

lemma process_tinyBack_sweepBatch:
  "process exampleParams flatCap midSweepState (tinyBackPoint # sweepBatch) 1 =
     Inr \<lparr>laserRotDir = 1, sweepStart = 0,
          laserCloud = remapAxes frontPoint # map examplePoint [1 ..< 18] @ [remapAxes sidePoint],
          cornerPointsSharp = [], cornerPointsLessSharp = [],
          surfacePointsFlat =
            [examplePoint 5, examplePoint 6, examplePoint 8, examplePoint 10, examplePoint 12],
          surfacePointsLessFlat =
            [examplePoint 0, examplePoint 5, examplePoint 6, examplePoint 8, examplePoint 10,
             examplePoint 12]\<rparr>"
proof -
  have ne: "tinyBackPoint # sweepBatch \<noteq> []" by simp
  have hl: "hd (tinyBackPoint # sweepBatch) = tinyBackPoint"
    "last (tinyBackPoint # sweepBatch) = sidePoint"
    by (simp_all add: sweepBatch_def)
  have s: "\<not> signDisagrees (laserAngle tinyBackPoint sidePoint) 1"
    unfolding laserAngle_tinyBack_side by (rule signDisagrees_quarter_pi)
  have d: "detectSweep exampleParams midSweepState (tinyBackPoint # sweepBatch) 1 =
      Inr (False, reset 1 False midSweepState)"
    unfolding detectSweep_hd_last [OF ne] hl
    using s
    by (simp add: newSweepCondition_def
        laserAngle_sign_test [of _ _ 1, simplified] midSweepState_def initialState_def
        exampleParams_def)
  have r: "reset 1 False midSweepState =
      \<lparr>laserRotDir = 1, sweepStart = 0, laserCloud = [], cornerPointsSharp = [],
       cornerPointsLessSharp = [], surfacePointsFlat = [],
       surfacePointsLessFlat = [examplePoint 0]\<rparr>"
    by (simp add: reset_def midSweepState_def initialState_def)
  define cl where
    "cl = remapAxes frontPoint # map examplePoint [1 ..< 18] @ [remapAxes sidePoint]"
  have e: "extractValid flatCap (tinyBackPoint # sweepBatch) [] = cl"
    using tinyBackPoint_skipped by (simp add: extractValid_sweepBatch cl_def)
  have x: "extractScan exampleParams flatCap cl =
      Inr \<lparr>regionCurvature = [Fin 0], regionLabel = [SURFACE_FLAT], regionSortIndices = [12],
          scanNeighborPicked = [0, 0, 0, 0, 0, 1, 1, 0, 1, 0, 1, 0, 1, 0, 0, 0, 0, 0, 0],
          sharpPicks = [], lessSharpPicks = [], flatPicks = [5, 6, 8, 10, 12],
          lessFlatPicks = [5, 6, 8, 10, 12]\<rparr>"
    by (simp only: extractScan_sweepBatch cl_def)
  have c: "cloudPoints cl [5, 6, 8, 10, 12] =
      [examplePoint 5, examplePoint 6, examplePoint 8, examplePoint 10, examplePoint 12]"
    unfolding cloudPoints_def list.map cl_def
    using nth_sweepCloud [of 5] nth_sweepCloud [of 6] nth_sweepCloud [of 8]
      nth_sweepCloud [of 10] nth_sweepCloud [of 12]
    by (simp del: upt_Suc)
  have n: "cloudPoints cl [] = []" by (simp add: cloudPoints_def)
  have ds: "downSize flatCap l c = c" for l c by (simp add: flatCap_def exampleCap_def)
  show ?thesis
    unfolding process_def d bindE_Inr snd_conv r e cl_def [symmetric]
    by (simp add: extractFeatures_def x c n ds)
qed

text \<open>
  C10. \<open>process\<close> reads \<^verbatim>\<open>laserCloudIn.points[0]\<close> and
  \<^verbatim>\<open>laserCloudIn.points[cloudSize - 1]\<close> before it filters anything. For an
  empty batch both reads are out of bounds (\<^verbatim>\<open>cloudSize - 1\<close> wraps), and
  \<open>process\<close> fails. For a non-empty batch the reads return the first and the
  last raw point, whether valid or not, and \<open>process\<close> is the feature extraction
  of the state that the sweep decision on these two raw points leaves, with the
  valid points of the batch as scan buffer. So a non-empty batch without any
  valid point passes the reads and fails later, on the empty scan buffer.
\<close>

theorem process_reads_raw_ends:
  "readAt ([] :: point list) 0 = Inl OutOfBounds \<and>
   readAt ([] :: point list) (size_sub (length ([] :: point list)) 1) = Inl OutOfBounds \<and>
   detectSweep cfg st [] t = Inl OutOfBounds \<and>
   process cfg cap st [] t = Inl OutOfBounds \<and>
   (pts \<noteq> [] \<longrightarrow>
      readAt pts 0 = Inr (hd pts) \<and>
      readAt pts (size_sub (length pts) 1) = Inr (last pts) \<and>
      (\<exists>st'. detectSweep cfg st pts t =
         Inr (newSweepCondition cfg st (laserAngle (hd pts) (last pts)) t, st')) \<and>
      process cfg cap st pts t =
        extractFeatures cfg cap
          ((if newSweepCondition cfg st (laserAngle (hd pts) (last pts)) t
            then reset t True (st\<lparr>laserRotDir := laserRotDir st * (- 1)\<rparr>)
            else reset t False st)\<lparr>laserCloud := extractValid cap pts []\<rparr>) \<and>
      ((\<forall>p \<in> set pts. malformed p) \<longrightarrow>
         process cfg cap st pts t = Inl IntConversionUndefined))"
proof -
  have e: "readAt ([] :: point list) 0 = Inl OutOfBounds"
    "readAt ([] :: point list) (size_sub (length ([] :: point list)) 1) = Inl OutOfBounds"
    by (simp_all add: readAt_def)
  have d: "detectSweep cfg st [] t = Inl OutOfBounds"
    by (simp add: detectSweep_def readAt_def)
  have p: "process cfg cap st [] t = Inl OutOfBounds"
    by (simp add: process_def d)
  have n: "readAt pts 0 = Inr (hd pts) \<and>
      readAt pts (size_sub (length pts) 1) = Inr (last pts) \<and>
      (\<exists>st'. detectSweep cfg st pts t =
         Inr (newSweepCondition cfg st (laserAngle (hd pts) (last pts)) t, st')) \<and>
      process cfg cap st pts t =
        extractFeatures cfg cap
          ((if newSweepCondition cfg st (laserAngle (hd pts) (last pts)) t
            then reset t True (st\<lparr>laserRotDir := laserRotDir st * (- 1)\<rparr>)
            else reset t False st)\<lparr>laserCloud := extractValid cap pts []\<rparr>) \<and>
      ((\<forall>p \<in> set pts. malformed p) \<longrightarrow>
         process cfg cap st pts t = Inl IntConversionUndefined)"
    if ne: "pts \<noteq> []"
  proof -
    have l: "0 < length pts" "1 \<le> length pts" using ne by (cases pts, simp_all)+
    have h: "pts ! 0 = hd pts" using ne by (simp add: hd_conv_nth)
    have la: "pts ! (length pts - 1) = last pts" using ne by (simp add: last_conv_nth)
    have r: "readAt pts 0 = Inr (hd pts)" "readAt pts (size_sub (length pts) 1) = Inr (last pts)"
      using l h la by (simp_all add: readAt_def)
    have ds: "\<exists>st'. detectSweep cfg st pts t =
         Inr (newSweepCondition cfg st (laserAngle (hd pts) (last pts)) t, st')"
      by (simp add: detectSweep_hd_last [OF ne])
    have pr: "process cfg cap st pts t =
        extractFeatures cfg cap
          ((if newSweepCondition cfg st (laserAngle (hd pts) (last pts)) t
            then reset t True (st\<lparr>laserRotDir := laserRotDir st * (- 1)\<rparr>)
            else reset t False st)\<lparr>laserCloud := extractValid cap pts []\<rparr>)"
      unfolding process_def detectSweep_hd_last [OF ne] by simp
    have al: "process cfg cap st pts t = Inl IntConversionUndefined"
      if "\<forall>p \<in> set pts. malformed p"
      by (rule process_scan_error [OF ne])
        (simp add: extractValid_all_malformed [OF that] extractScan_empty)
    show ?thesis using r ds pr al by blast
  qed
  show ?thesis using e d p n by blast
qed

theorem process_reads_raw_ends_witness:
  "[nanPoint] \<noteq> [] \<and> malformed nanPoint \<and>
   readAt [nanPoint] 0 = Inr nanPoint \<and>
   readAt [nanPoint] (size_sub (length [nanPoint]) 1) = Inr nanPoint \<and>
   process exampleParams flatCap initialState [nanPoint] 1 = Inl IntConversionUndefined \<and>
   process exampleParams flatCap initialState [] 1 = Inl OutOfBounds \<and>
   tinyBackPoint # sweepBatch \<noteq> [] \<and>
   readAt (tinyBackPoint # sweepBatch) 0 = Inr tinyBackPoint \<and>
   malformed tinyBackPoint \<and>
   extractValid flatCap (tinyBackPoint # sweepBatch) [] = extractValid flatCap sweepBatch [] \<and>
   process exampleParams flatCap midSweepState (tinyBackPoint # sweepBatch) 1 =
     extractFeatures exampleParams flatCap
       ((reset 1 False midSweepState)
          \<lparr>laserCloud := extractValid flatCap (tinyBackPoint # sweepBatch) []\<rparr>) \<and>
   process exampleParams flatCap midSweepState (tinyBackPoint # sweepBatch) 1 =
     Inr \<lparr>laserRotDir = 1, sweepStart = 0,
          laserCloud = remapAxes frontPoint # map examplePoint [1 ..< 18] @ [remapAxes sidePoint],
          cornerPointsSharp = [], cornerPointsLessSharp = [],
          surfacePointsFlat =
            [examplePoint 5, examplePoint 6, examplePoint 8, examplePoint 10, examplePoint 12],
          surfacePointsLessFlat =
            [examplePoint 0, examplePoint 5, examplePoint 6, examplePoint 8, examplePoint 10,
             examplePoint 12]\<rparr> \<and>
   process exampleParams flatCap midSweepState sweepBatch 1 =
     Inr \<lparr>laserRotDir = - 1, sweepStart = 1,
          laserCloud = remapAxes frontPoint # map examplePoint [1 ..< 18] @ [remapAxes sidePoint],
          cornerPointsSharp = [], cornerPointsLessSharp = [],
          surfacePointsFlat =
            [examplePoint 5, examplePoint 6, examplePoint 8, examplePoint 10, examplePoint 12],
          surfacePointsLessFlat =
            [examplePoint 5, examplePoint 6, examplePoint 8, examplePoint 10, examplePoint 12]\<rparr>"
proof -
  have ne1: "[nanPoint] \<noteq> []" by simp
  have m0: "malformed nanPoint"
    by (simp add: malformed_def remapAxes_def nanPoint_def)
  then have m1: "\<forall>p \<in> set [nanPoint]. malformed p" by simp
  note th1 = process_reads_raw_ends [of exampleParams initialState 1 flatCap "[nanPoint]"]
  have "readAt [nanPoint] 0 = Inr (hd [nanPoint])"
    "readAt [nanPoint] (size_sub (length [nanPoint]) 1) = Inr (last [nanPoint])"
    using th1 ne1 by blast+
  then have a12: "readAt [nanPoint] 0 = Inr nanPoint"
    "readAt [nanPoint] (size_sub (length [nanPoint]) 1) = Inr nanPoint"
    by simp_all
  have a34: "process exampleParams flatCap initialState [nanPoint] 1 = Inl IntConversionUndefined"
    "process exampleParams flatCap initialState [] 1 = Inl OutOfBounds"
    using th1 ne1 m1 by blast+
  note a = a12 a34
  have ne2: "tinyBackPoint # sweepBatch \<noteq> []" by simp
  note th2 = process_reads_raw_ends [of exampleParams midSweepState 1 flatCap
      "tinyBackPoint # sweepBatch"]
  have hl: "hd (tinyBackPoint # sweepBatch) = tinyBackPoint"
    "last (tinyBackPoint # sweepBatch) = sidePoint"
    by (simp_all add: sweepBatch_def)
  have s: "\<not> signDisagrees (laserAngle tinyBackPoint sidePoint) 1"
    unfolding laserAngle_tinyBack_side by (rule signDisagrees_quarter_pi)
  have c: "\<not> newSweepCondition exampleParams midSweepState
      (laserAngle (hd (tinyBackPoint # sweepBatch)) (last (tinyBackPoint # sweepBatch))) 1"
    using s unfolding hl
    by (simp add: newSweepCondition_def laserAngle_sign_test [of _ _ 1, simplified]
        midSweepState_def initialState_def)
  have b: "readAt (tinyBackPoint # sweepBatch) 0 = Inr tinyBackPoint"
    by (simp add: readAt_def)
  have m2: "malformed tinyBackPoint"
    using tinyBackPoint_skipped by (simp add: skipped_remapAxes_iff)
  have v: "extractValid flatCap (tinyBackPoint # sweepBatch) [] = extractValid flatCap sweepBatch []"
    using tinyBackPoint_skipped by simp
  have f: "process exampleParams flatCap midSweepState (tinyBackPoint # sweepBatch) 1 =
     extractFeatures exampleParams flatCap
       ((reset 1 False midSweepState)
          \<lparr>laserCloud := extractValid flatCap (tinyBackPoint # sweepBatch) []\<rparr>)"
    using th2 ne2 c by (simp del: extractValid.simps last.simps)
  show ?thesis
    using ne1 m0 a ne2 b m2 v f process_tinyBack_sweepBatch process_sweepBatch
    by (intro conjI)
qed

subsection \<open>Claim C4: when a new sweep is declared\<close>

text \<open>
  C4. For a non-empty batch \<open>process\<close> declares a new sweep if and only if the
  sign of the bearing angle disagrees with the persisted rotation direction and
  the time since the last declared sweep start exceeds the scan period. When it
  does, the rotation direction is flipped, the sweep start time becomes the scan
  time and the less-flat accumulator is cleared before the scan's own points are
  added; otherwise the three are kept. At or below the scan period no sweep is
  declared. The rest of \<open>process\<close> keeps the direction and the sweep start and
  only appends to the accumulator.
\<close>

theorem new_sweep_declared_iff:
  assumes "pts \<noteq> []"
  shows "\<exists>newSweep st'. detectSweep cfg st pts t = Inr (newSweep, st') \<and>
     (newSweep \<longleftrightarrow>
        signDisagrees (laserAngle (hd pts) (last pts)) (laserRotDir st) \<and>
        scanPeriod cfg < t - sweepStart st) \<and>
     (newSweep \<longrightarrow> laserRotDir st' = - laserRotDir st \<and> sweepStart st' = t \<and>
        surfacePointsLessFlat st' = []) \<and>
     (\<not> newSweep \<longrightarrow> laserRotDir st' = laserRotDir st \<and> sweepStart st' = sweepStart st \<and>
        surfacePointsLessFlat st' = surfacePointsLessFlat st) \<and>
     (t - sweepStart st \<le> scanPeriod cfg \<longrightarrow> \<not> newSweep) \<and>
     (\<forall>st''. process cfg cap st pts t = Inr st'' \<longrightarrow>
        laserRotDir st'' = laserRotDir st' \<and> sweepStart st'' = sweepStart st' \<and>
        (\<exists>new. surfacePointsLessFlat st'' = surfacePointsLessFlat st' @ new))"
proof -
  let ?c = "newSweepCondition cfg st (laserAngle (hd pts) (last pts)) t"
  let ?st' = "if ?c then reset t True (st\<lparr>laserRotDir := laserRotDir st * (- 1)\<rparr>)
              else reset t False st"
  have d: "detectSweep cfg st pts t = Inr (?c, ?st')"
    by (simp add: detectSweep_hd_last [OF assms])
  have c: "?c \<longleftrightarrow> signDisagrees (laserAngle (hd pts) (last pts)) (laserRotDir st) \<and>
        scanPeriod cfg < t - sweepStart st"
    by (simp add: newSweepCondition_def laserAngle_sign_test)
  have y: "?c \<longrightarrow> laserRotDir ?st' = - laserRotDir st \<and> sweepStart ?st' = t \<and>
        surfacePointsLessFlat ?st' = []"
    by (simp add: reset_def)
  have n: "\<not> ?c \<longrightarrow> laserRotDir ?st' = laserRotDir st \<and> sweepStart ?st' = sweepStart st \<and>
        surfacePointsLessFlat ?st' = surfacePointsLessFlat st"
    by (simp add: reset_def)
  have g: "t - sweepStart st \<le> scanPeriod cfg \<longrightarrow> \<not> ?c"
    by (simp add: newSweepCondition_def)
  have p: "\<forall>st''. process cfg cap st pts t = Inr st'' \<longrightarrow>
        laserRotDir st'' = laserRotDir ?st' \<and> sweepStart st'' = sweepStart ?st' \<and>
        (\<exists>new. surfacePointsLessFlat st'' = surfacePointsLessFlat ?st' @ new)"
  proof (intro allI impI)
    fix st''
    assume "process cfg cap st pts t = Inr st''"
    then have "extractFeatures cfg cap (?st'\<lparr>laserCloud := extractValid cap pts []\<rparr>) = Inr st''"
      unfolding process_def d by simp
    from extractFeatures_frame [OF this]
    show "laserRotDir st'' = laserRotDir ?st' \<and> sweepStart st'' = sweepStart ?st' \<and>
        (\<exists>new. surfacePointsLessFlat st'' = surfacePointsLessFlat ?st' @ new)"
      by simp
  qed
  show ?thesis
    using d c y n g p by blast
qed

theorem new_sweep_declared_iff_witness:
  "sweepBatch \<noteq> [] \<and>
   laserRotDir midSweepState = 1 \<and> sweepStart midSweepState = 0 \<and>
   surfacePointsLessFlat midSweepState = [examplePoint 0] \<and>
   signDisagrees (laserAngle (hd sweepBatch) (last sweepBatch)) (laserRotDir midSweepState) \<and>
   scanPeriod exampleParams < 1 - sweepStart midSweepState \<and>
   detectSweep exampleParams midSweepState sweepBatch 1 =
     Inr (True, reset 1 True (midSweepState\<lparr>laserRotDir := - 1\<rparr>)) \<and>
   laserRotDir (reset 1 True (midSweepState\<lparr>laserRotDir := - 1\<rparr>)) = - 1 \<and>
   sweepStart (reset 1 True (midSweepState\<lparr>laserRotDir := - 1\<rparr>)) = 1 \<and>
   surfacePointsLessFlat (reset 1 True (midSweepState\<lparr>laserRotDir := - 1\<rparr>)) = [] \<and>
   process exampleParams flatCap midSweepState sweepBatch 1 =
     Inr \<lparr>laserRotDir = - 1, sweepStart = 1,
          laserCloud = remapAxes frontPoint # map examplePoint [1 ..< 18] @ [remapAxes sidePoint],
          cornerPointsSharp = [], cornerPointsLessSharp = [],
          surfacePointsFlat =
            [examplePoint 5, examplePoint 6, examplePoint 8, examplePoint 10, examplePoint 12],
          surfacePointsLessFlat =
            [examplePoint 5, examplePoint 6, examplePoint 8, examplePoint 10, examplePoint 12]\<rparr> \<and>
   1 / 20 - sweepStart midSweepState \<le> scanPeriod exampleParams \<and>
   detectSweep exampleParams midSweepState sweepBatch (1 / 20) =
     Inr (False, reset (1 / 20) False midSweepState) \<and>
   surfacePointsLessFlat (reset (1 / 20) False midSweepState) = [examplePoint 0]"
proof -
  have ne: "sweepBatch \<noteq> []" by (simp add: sweepBatch_def)
  have hl: "hd sweepBatch = frontPoint" "last sweepBatch = sidePoint"
    by (simp_all add: sweepBatch_def)
  have m: "laserRotDir midSweepState = 1" "sweepStart midSweepState = 0"
    "surfacePointsLessFlat midSweepState = [examplePoint 0]"
    "scanPeriod exampleParams = 1 / 10"
    by (simp_all add: midSweepState_def initialState_def exampleParams_def)
  have s: "signDisagrees (laserAngle (hd sweepBatch) (last sweepBatch)) 1"
    unfolding hl laserAngle_front_side by (rule signDisagrees_quarter_pi)
  have f: "midSweepState\<lparr>laserRotDir := 1 * (- 1)\<rparr> = midSweepState\<lparr>laserRotDir := - 1\<rparr>"
    by simp
  note th1 = new_sweep_declared_iff [OF ne, of exampleParams midSweepState 1 flatCap]
  note th2 = new_sweep_declared_iff [OF ne, of exampleParams midSweepState "1 / 20" flatCap]
  from th1 obtain st1 where
    d1: "detectSweep exampleParams midSweepState sweepBatch 1 = Inr (True, st1)"
    and e1: "laserRotDir st1 = - 1" "sweepStart st1 = 1" "surfacePointsLessFlat st1 = []"
    using s m by auto
  have r1: "st1 = reset 1 True (midSweepState\<lparr>laserRotDir := - 1\<rparr>)"
    using d1 by (simp add: detectSweep_hd_last [OF ne] m f split: if_splits)
  from th2 obtain st2 where
    d2: "detectSweep exampleParams midSweepState sweepBatch (1 / 20) = Inr (False, st2)"
    and e2: "surfacePointsLessFlat st2 = surfacePointsLessFlat midSweepState"
    using m by auto
  have r2: "st2 = reset (1 / 20) False midSweepState"
    using d2 by (simp add: detectSweep_hd_last [OF ne] split: if_splits)
  have g: "1 / 20 - sweepStart midSweepState \<le> scanPeriod exampleParams"
    by (simp add: m)
  have p: "scanPeriod exampleParams < 1 - sweepStart midSweepState" by (simp add: m)
  show ?thesis
    using ne m(1,2,3) s [folded m(1)] p d1 [unfolded r1] e1 [unfolded r1] process_sweepBatch g
      d2 [unfolded r2] e2 [unfolded r2 m(3)]
    by (intro conjI)
qed

subsection \<open>Claim C8: the points the sweep signal is computed from\<close>

lemma normalized_hugePoint: "normalized hugePoint = \<lparr>px = Fin 0, py = Fin 0, pz = Fin 0\<rparr>"
proof -
  have "calcPointDistance hugePoint = PInf"
    by (simp add: calcPointDistance_def hugePoint_def fmul_def fadd_def signed_zero_def
        signed_inf_def round_to_overflow)
  then show ?thesis
    by (simp add: normalized_def hugePoint_def fdiv_def signed_zero_def)
qed

text \<open>
  C8, as stated, fails. The signal is not computed from the first and last valid
  points: in the batch \<open>[tinyPoint, backPoint, sidePoint]\<close> the first raw point
  is dropped by the validity filter (its squared norm is below 0.0001), yet the
  code takes the bearing from it: the angle is negative against direction 1 and
  a new sweep is declared. From the first and last valid points the angle is
  positive and no sweep would be declared. Nor is the result of the
  normalization always a unit vector: the squares of the finite point
  \<open>hugePoint\<close> overflow, its range is infinite and the division gives the zero
  vector.
\<close>

theorem sweep_signal_counterexample:
  "skipped (remapAxes tinyPoint) \<and> \<not> skipped (remapAxes backPoint) \<and>
   \<not> skipped (remapAxes sidePoint) \<and>
   detectSweep exampleParams initialState [tinyPoint, backPoint, sidePoint] 1 =
     Inr (True, reset 1 True (initialState\<lparr>laserRotDir := - 1\<rparr>)) \<and>
   detectSweep exampleParams initialState [backPoint, sidePoint] 1 =
     Inr (False, reset 1 False initialState) \<and>
   isfinite (px hugePoint) \<and> isfinite (py hugePoint) \<and> isfinite (pz hugePoint) \<and>
   normalized hugePoint = \<lparr>px = Fin 0, py = Fin 0, pz = Fin 0\<rparr> \<and>
   calcPointDistance (normalized hugePoint) = Fin 0"
proof -
  have v: "skipped (remapAxes tinyPoint)" "\<not> skipped (remapAxes backPoint)"
    "\<not> skipped (remapAxes sidePoint)"
    by (rule tinyPoint_skipped, rule unit_points_kept(3), rule unit_points_kept(2))
  have hl: "hd [tinyPoint, backPoint, sidePoint] = tinyPoint"
    "last [tinyPoint, backPoint, sidePoint] = sidePoint"
    "hd [backPoint, sidePoint] = backPoint" "last [backPoint, sidePoint] = sidePoint"
    by simp_all
  have s: "signDisagrees (laserAngle tinyPoint sidePoint) 1"
    "\<not> signDisagrees (laserAngle backPoint sidePoint) 1"
    unfolding laserAngle_tiny_side laserAngle_back_side by (rule signDisagrees_quarter_pi)+
  have d1: "detectSweep exampleParams initialState [tinyPoint, backPoint, sidePoint] 1 =
     Inr (True, reset 1 True (initialState\<lparr>laserRotDir := - 1\<rparr>))"
    unfolding detectSweep_hd_last [of "[tinyPoint, backPoint, sidePoint]", simplified] 
    using s(1)
    by (simp add: newSweepCondition_def laserAngle_sign_test [of _ _ 1, simplified]
        initialState_def exampleParams_def)
  have d2: "detectSweep exampleParams initialState [backPoint, sidePoint] 1 =
     Inr (False, reset 1 False initialState)"
    unfolding detectSweep_hd_last [of "[backPoint, sidePoint]", simplified]
    using s(2)
    by (simp add: newSweepCondition_def laserAngle_sign_test [of _ _ 1, simplified]
        initialState_def exampleParams_def)
  have h: "isfinite (px hugePoint)" "isfinite (py hugePoint)" "isfinite (pz hugePoint)"
    by (simp_all add: hugePoint_def)
  have z: "calcPointDistance (normalized hugePoint) = Fin 0"
    unfolding normalized_hugePoint
    by (simp add: calcPointDistance_def fmul_def fadd_def signed_zero_def)
  show ?thesis
    using v d1 d2 h normalized_hugePoint z by (intro conjI)
qed

text \<open>
  C8, amended. For every non-empty raw batch the sweep-boundary signal is
  computed from the first and the last raw point of the batch, element 0 and
  element \<open>cloudSize - 1\<close>, taken before the validity filter and whether valid or
  not: each coordinate of the two points is divided by the range of its point
  as single-precision arithmetic gives it, the bearing is the single-precision
  \<open>atan2\<close> of the difference of the x coordinates and the difference of the y
  coordinates, and a new sweep is declared when its sign disagrees with the
  persisted rotation direction and the scan period has passed. Whenever
  \<open>process\<close> returns, the rotation direction it leaves is flipped exactly in
  that case.
\<close>

theorem sweep_signal_amended:
  assumes "pts \<noteq> []"
  shows "(\<exists>st'. detectSweep cfg st pts t =
            Inr (signDisagrees (laserAngle (pts ! 0) (pts ! (length pts - 1))) (laserRotDir st)
                 \<and> scanPeriod cfg < t - sweepStart st, st')) \<and>
         (\<forall>st''. process cfg cap st pts t = Inr st'' \<longrightarrow>
            laserRotDir st'' =
              (if signDisagrees (laserAngle (pts ! 0) (pts ! (length pts - 1))) (laserRotDir st)
                  \<and> scanPeriod cfg < t - sweepStart st
               then - laserRotDir st else laserRotDir st)) \<and>
         laserAngle (pts ! 0) (pts ! (length pts - 1)) =
           fatan2
             (fsub (fdiv (px (pts ! (length pts - 1))) (calcPointDistance (pts ! (length pts - 1))))
                   (fdiv (px (pts ! 0)) (calcPointDistance (pts ! 0))))
             (fsub (fdiv (py (pts ! (length pts - 1))) (calcPointDistance (pts ! (length pts - 1))))
                   (fdiv (py (pts ! 0)) (calcPointDistance (pts ! 0))))"
proof -
  let ?f = "pts ! 0" and ?l = "pts ! (length pts - 1)"
  let ?c = "newSweepCondition cfg st (laserAngle ?f ?l) t"
  let ?st' = "if ?c then reset t True (st\<lparr>laserRotDir := laserRotDir st * (- 1)\<rparr>)
              else reset t False st"
  have c: "?c \<longleftrightarrow>
      signDisagrees (laserAngle ?f ?l) (laserRotDir st) \<and> scanPeriod cfg < t - sweepStart st"
    by (simp add: newSweepCondition_def laserAngle_sign_test)
  have d: "\<exists>st'. detectSweep cfg st pts t =
            Inr (signDisagrees (laserAngle ?f ?l) (laserRotDir st)
                 \<and> scanPeriod cfg < t - sweepStart st, st')"
    unfolding detectSweep_nonempty [OF assms] c [symmetric] by simp
  have p: "laserRotDir st'' =
              (if signDisagrees (laserAngle ?f ?l) (laserRotDir st)
                  \<and> scanPeriod cfg < t - sweepStart st
               then - laserRotDir st else laserRotDir st)"
    if run: "process cfg cap st pts t = Inr st''" for st''
  proof -
    from run have "extractFeatures cfg cap (?st'\<lparr>laserCloud := extractValid cap pts []\<rparr>) = Inr st''"
      unfolding process_def detectSweep_nonempty [OF assms] by (simp split: if_splits)
    from extractFeatures_frame [OF this] have "laserRotDir st'' = laserRotDir ?st'" by simp
    also have "\<dots> = (if ?c then - laserRotDir st else laserRotDir st)"
      by (simp add: reset_def)
    finally show ?thesis unfolding c .
  qed
  have a: "laserAngle ?f ?l =
           fatan2 (fsub (fdiv (px ?l) (calcPointDistance ?l)) (fdiv (px ?f) (calcPointDistance ?f)))
                  (fsub (fdiv (py ?l) (calcPointDistance ?l)) (fdiv (py ?f) (calcPointDistance ?f)))"
    by (simp add: laserAngle_def normalized_def)
  show ?thesis using d p a by blast
qed

theorem sweep_signal_amended_witness:
  "tinyBackPoint # sweepBatch \<noteq> [] \<and>
   (tinyBackPoint # sweepBatch) ! 0 = tinyBackPoint \<and>
   (tinyBackPoint # sweepBatch) ! (length (tinyBackPoint # sweepBatch) - 1) = sidePoint \<and>
   skipped (remapAxes tinyBackPoint) \<and>
   extractValid flatCap (tinyBackPoint # sweepBatch) [] =
     remapAxes frontPoint # map examplePoint [1 ..< 18] @ [remapAxes sidePoint] \<and>
   signDisagrees (laserAngle frontPoint sidePoint) (laserRotDir midSweepState) \<and>
   \<not> signDisagrees (laserAngle tinyBackPoint sidePoint) (laserRotDir midSweepState) \<and>
   scanPeriod exampleParams < 1 - sweepStart midSweepState \<and>
   detectSweep exampleParams midSweepState (tinyBackPoint # sweepBatch) 1 =
     Inr (False, reset 1 False midSweepState) \<and>
   process exampleParams flatCap midSweepState (tinyBackPoint # sweepBatch) 1 =
     Inr \<lparr>laserRotDir = 1, sweepStart = 0,
          laserCloud = remapAxes frontPoint # map examplePoint [1 ..< 18] @ [remapAxes sidePoint],
          cornerPointsSharp = [], cornerPointsLessSharp = [],
          surfacePointsFlat =
            [examplePoint 5, examplePoint 6, examplePoint 8, examplePoint 10, examplePoint 12],
          surfacePointsLessFlat =
            [examplePoint 0, examplePoint 5, examplePoint 6, examplePoint 8, examplePoint 10,
             examplePoint 12]\<rparr> \<and>
   laserAngle tinyBackPoint sidePoint =
     fatan2 (fsub (fdiv (Fin 0) (Fin 1)) (fdiv (Fin (- (1 / 1024))) (Fin (1 / 1024))))
            (fsub (fdiv (Fin 1) (Fin 1)) (fdiv (Fin 0) (Fin (1 / 1024)))) \<and>
   laserAngle tinyBackPoint sidePoint = round_to False (pi / 4)"
proof -
  let ?pts = "tinyBackPoint # sweepBatch"
  have ne: "?pts \<noteq> []" by simp
  have len: "length sweepBatch = 19" by (simp add: sweepBatch_def)
  have f: "?pts ! 0 = tinyBackPoint" by simp
  have "?pts ! (length ?pts - 1) = last ?pts" by (rule last_conv_nth [OF ne, symmetric])
  then have l: "?pts ! (length ?pts - 1) = sidePoint" by (simp add: sweepBatch_def)
  have m: "laserRotDir midSweepState = 1" "sweepStart midSweepState = 0"
    "scanPeriod exampleParams = 1 / 10"
    by (simp_all add: midSweepState_def initialState_def exampleParams_def)
  have s: "signDisagrees (laserAngle frontPoint sidePoint) (laserRotDir midSweepState)"
    "\<not> signDisagrees (laserAngle tinyBackPoint sidePoint) (laserRotDir midSweepState)"
    unfolding m laserAngle_front_side laserAngle_tinyBack_side
    by (rule signDisagrees_quarter_pi)+
  have v: "extractValid flatCap ?pts [] =
     remapAxes frontPoint # map examplePoint [1 ..< 18] @ [remapAxes sidePoint]"
    using tinyBackPoint_skipped by (simp add: extractValid_sweepBatch)
  have r: "round_to False (1 / 1048576) = Fin (1 / 1048576)"
    using round_to_two_pow_inverse [of 20 False] by simp
  have q: "sqrt (1 / 1048576) = 1 / 1024"
    by (rule real_sqrt_unique) (simp_all add: power2_eq_square)
  have t: "round_to False (1 / 1024) = Fin (1 / 1024)"
    using round_to_two_pow_inverse [of 10 False] by simp
  have cd: "calcPointDistance tinyBackPoint = Fin (1 / 1024)" "calcPointDistance sidePoint = Fin 1"
    by (simp_all add: calcPointDistance_def tinyBackPoint_def sidePoint_def flt_eval r q t)
  have co: "px tinyBackPoint = Fin (- (1 / 1024))" "py tinyBackPoint = Fin 0"
    "px sidePoint = Fin 0" "py sidePoint = Fin 1"
    by (simp_all add: tinyBackPoint_def sidePoint_def)
  note th = sweep_signal_amended [OF ne, of exampleParams midSweepState 1 flatCap,
      unfolded f l cd co]
  from th s(2) have d: "\<exists>st'. detectSweep exampleParams midSweepState ?pts 1 = Inr (False, st')"
    by simp
  have d1: "detectSweep exampleParams midSweepState ?pts 1 =
     Inr (False, reset 1 False midSweepState)"
    using d by (simp add: detectSweep_nonempty [OF ne] split: if_splits)
  have a: "laserAngle tinyBackPoint sidePoint =
     fatan2 (fsub (fdiv (Fin 0) (Fin 1)) (fdiv (Fin (- (1 / 1024))) (Fin (1 / 1024))))
            (fsub (fdiv (Fin 1) (Fin 1)) (fdiv (Fin 0) (Fin (1 / 1024))))"
    using th by blast
  have p: "scanPeriod exampleParams < 1 - sweepStart midSweepState" by (simp add: m)
  show ?thesis
    using ne f l tinyBackPoint_skipped v s p d1 process_tinyBack_sweepBatch a
      laserAngle_tinyBack_side
    by (intro conjI)
qed

subsection \<open>Claim C7: malformed points are dropped\<close>

lemma squaredNorm_edgePoint:
  "squaredNorm (remapAxes edgePoint) = Fin (1717987 / 17179869184)"
proof -
  have x2: "fmul (Fin (1 / 128)) (Fin (1 / 128)) = Fin (1 / 16384)"
    using round_to_two_pow_inverse [of 14 False] by (simp add: fmul_def)
  have "round_to False (179693622850225 / 4611686018427387904) = Fin (10710575 / 274877906944)"
    using round_to_eval [of "- 15" "179693622850225 / 4611686018427387904" False]
    by (simp add: power_int_minus round_even_def Let_def)
  then have y2: "fmul (Fin (13404985 / 2147483648)) (Fin (13404985 / 2147483648)) =
      Fin (10710575 / 274877906944)"
    by (simp add: fmul_def)
  have "round_to False (27487791 / 274877906944) = Fin (1717987 / 17179869184)"
    using round_to_eval [of "- 14" "27487791 / 274877906944" False]
    by (simp add: power_int_minus round_even_def Let_def)
  then have s1: "fadd (Fin (1 / 16384)) (Fin (10710575 / 274877906944)) =
      Fin (1717987 / 17179869184)"
    by (simp add: fadd_def round32_def)
  have z: "fmul (Fin 0) (Fin 0) = Fin 0" by (simp add: fmul_def signed_zero_def)
  have "round_to False (1717987 / 17179869184) = Fin (1717987 / 17179869184)"
    using round_to_dyadic [of 1717987 34 False] by simp
  then have s2: "fadd (Fin (1717987 / 17179869184)) (Fin 0) = Fin (1717987 / 17179869184)"
    by (simp add: fadd_def round32_def)
  show ?thesis
    by (simp add: squaredNorm_def remapAxes_def edgePoint_def x2 y2 s1 z s2)
qed

lemma edgePoint_kept: "\<not> skipped (remapAxes edgePoint)"
proof -
  have "\<not> flt_less (squaredNorm (remapAxes edgePoint)) (Fin double_0_0001)"
    unfolding squaredNorm_edgePoint by (simp add: double_0_0001_def)
  moreover have "isfinite (px (remapAxes edgePoint))" "isfinite (py (remapAxes edgePoint))"
    "isfinite (pz (remapAxes edgePoint))"
    by (simp_all add: remapAxes_def edgePoint_def)
  ultimately show ?thesis by (simp add: skipped_def squaredNorm_def)
qed

lemma exampleBatch_take_drop:
  "take 10 (exampleBatch 19) = map exampleRaw [0 ..< 10]"
  "drop 10 (exampleBatch 19) = map exampleRaw [10 ..< 19]"
  by (simp_all add: exampleBatch_def take_map drop_map take_upt drop_upt del: upt_Suc)

lemma extractValid_edgeBatch:
  "extractValid flatCap edgeBatch [] =
     exampleCloud 10 @ remapAxes edgePoint # map examplePoint [10 ..< 19]"
proof -
  have a: "extractValid flatCap (map exampleRaw [0 ..< 10]) [] = [] @ map examplePoint [0 ..< 10]"
    by (rule extractValid_exampleRaw [OF flatCap_no_IMU]) simp
  have b: "extractValid flatCap (map exampleRaw [10 ..< 19]) (exampleCloud 10 @ [remapAxes edgePoint]) =
      (exampleCloud 10 @ [remapAxes edgePoint]) @ map examplePoint [10 ..< 19]"
    by (rule extractValid_exampleRaw [OF flatCap_no_IMU]) simp
  have "extractValid flatCap edgeBatch [] =
      extractValid flatCap (edgePoint # map exampleRaw [10 ..< 19])
        (extractValid flatCap (map exampleRaw [0 ..< 10]) [])"
    unfolding edgeBatch_def exampleBatch_take_drop by (rule extractValid_append)
  also have "\<dots> = extractValid flatCap (map exampleRaw [10 ..< 19])
      (exampleCloud 10 @ [remapAxes edgePoint])"
    unfolding a by (simp add: edgePoint_kept flatCap_no_IMU exampleCloud_def del: upt_Suc)
  finally show ?thesis unfolding b by simp
qed

lemma extractScan_edgeBatch:
  "extractScan exampleParams flatCap
     (exampleCloud 10 @ remapAxes edgePoint # map examplePoint [10 ..< 19]) =
     Inr \<lparr>regionCurvature = [Fin 0], regionLabel = [SURFACE_FLAT], regionSortIndices = [13],
          scanNeighborPicked = [0, 0, 0, 0, 0, 1, 1, 0, 1, 1, 0, 1, 0, 1, 0, 0, 0, 0, 0, 0],
          sharpPicks = [], lessSharpPicks = [], flatPicks = [5, 6, 8, 9, 11, 13],
          lessFlatPicks = [5, 6, 8, 9, 11, 13]\<rparr>"
  by (simp add: scan_eval flatCap_def exampleCloud_def
      cong: prod.case_cong_weak sum.case_cong_weak ctl.case_cong_weak if_weak_cong)

lemma nth_after_insert:
  assumes "length xs = a" and "a < k" and "k \<le> b"
  shows "(xs @ x # map f [a ..< b]) ! k = f (k - 1)"
  using assms by (simp add: nth_append nth_Cons')

lemma nth_edgeCloud:
  "k < 10 \<Longrightarrow> (exampleCloud 10 @ x # map examplePoint [10 ..< 19]) ! k = examplePoint k"
  "10 < k \<Longrightarrow> k < 20 \<Longrightarrow>
     (exampleCloud 10 @ x # map examplePoint [10 ..< 19]) ! k = examplePoint (k - 1)"
proof -
  show "k < 10 \<Longrightarrow> (exampleCloud 10 @ x # map examplePoint [10 ..< 19]) ! k = examplePoint k"
    by (simp add: nth_append exampleCloud_def del: upt_Suc)
  have l: "length (exampleCloud 10) = 10" by (simp add: exampleCloud_def)
  show "10 < k \<Longrightarrow> k < 20 \<Longrightarrow>
     (exampleCloud 10 @ x # map examplePoint [10 ..< 19]) ! k = examplePoint (k - 1)"
    by (rule nth_after_insert [OF l]) simp_all
qed

lemma process_edgeBatch:
  "process exampleParams flatCap initialState edgeBatch (1 / 20) =
     Inr (initialState
       \<lparr>laserCloud := exampleCloud 10 @ remapAxes edgePoint # map examplePoint [10 ..< 19],
        surfacePointsFlat :=
          [examplePoint 5, examplePoint 6, examplePoint 8, examplePoint 9, examplePoint 10,
           examplePoint 12],
        surfacePointsLessFlat :=
          [examplePoint 5, examplePoint 6, examplePoint 8, examplePoint 9, examplePoint 10,
           examplePoint 12]\<rparr>)"
proof -
  define cl where "cl = exampleCloud 10 @ remapAxes edgePoint # map examplePoint [10 ..< 19]"
  have ne: "edgeBatch \<noteq> []" by (simp add: edgeBatch_def)
  have d: "detectSweep exampleParams initialState edgeBatch (1 / 20) =
      Inr (False, reset (1 / 20) False initialState)"
    by (simp add: detectSweep_hd_last [OF ne] newSweepCondition_def initialState_def
        exampleParams_def)
  have r: "reset (1 / 20) False initialState = initialState"
    by (simp add: reset_def initialState_def)
  have e: "extractValid flatCap edgeBatch [] = cl"
    by (simp only: extractValid_edgeBatch cl_def)
  have x: "extractScan exampleParams flatCap cl =
     Inr \<lparr>regionCurvature = [Fin 0], regionLabel = [SURFACE_FLAT], regionSortIndices = [13],
          scanNeighborPicked = [0, 0, 0, 0, 0, 1, 1, 0, 1, 1, 0, 1, 0, 1, 0, 0, 0, 0, 0, 0],
          sharpPicks = [], lessSharpPicks = [], flatPicks = [5, 6, 8, 9, 11, 13],
          lessFlatPicks = [5, 6, 8, 9, 11, 13]\<rparr>"
    by (simp only: extractScan_edgeBatch cl_def)
  have c: "cloudPoints cl [5, 6, 8, 9, 11, 13] =
      [examplePoint 5, examplePoint 6, examplePoint 8, examplePoint 9, examplePoint 10,
       examplePoint 12]"
    unfolding cloudPoints_def list.map cl_def
    using nth_edgeCloud(1) [of 5] nth_edgeCloud(1) [of 6] nth_edgeCloud(1) [of 8]
      nth_edgeCloud(1) [of 9] nth_edgeCloud(2) [of 11] nth_edgeCloud(2) [of 13]
    by (simp del: upt_Suc)
  have n: "cloudPoints cl [] = []" by (simp add: cloudPoints_def)
  have ds: "downSize flatCap l c = c" for l c by (simp add: flatCap_def exampleCap_def)
  show ?thesis
    unfolding process_def d bindE_Inr snd_conv r e cl_def [symmetric]
    by (simp add: extractFeatures_def x c n ds initialState_def)
qed

text \<open>
  C7, as stated, fails for the squared norm over the reals: the coordinates of
  \<open>edgePoint\<close> are single-precision values, its squared norm is below 1/10000,
  and the code keeps it. In single precision the square of the second
  coordinate and the sum of the squares round up, to a sum above 0.0001: the
  point is not skipped, and \<open>process\<close> returns a scan buffer of 20 points that
  holds it.
\<close>

theorem near_epsilon_point_kept:
  "isfinite (px (remapAxes edgePoint)) \<and> isfinite (py (remapAxes edgePoint)) \<and>
   isfinite (pz (remapAxes edgePoint)) \<and>
   exactSquaredNorm (remapAxes edgePoint) < 1 / 10000 \<and>
   squaredNorm (remapAxes edgePoint) = Fin (1717987 / 17179869184) \<and>
   \<not> flt_less (Fin (1717987 / 17179869184)) (Fin double_0_0001) \<and>
   \<not> skipped (remapAxes edgePoint) \<and>
   process exampleParams flatCap initialState edgeBatch (1 / 20) =
     Inr (initialState
       \<lparr>laserCloud := exampleCloud 10 @ remapAxes edgePoint # map examplePoint [10 ..< 19],
        surfacePointsFlat :=
          [examplePoint 5, examplePoint 6, examplePoint 8, examplePoint 9, examplePoint 10,
           examplePoint 12],
        surfacePointsLessFlat :=
          [examplePoint 5, examplePoint 6, examplePoint 8, examplePoint 9, examplePoint 10,
           examplePoint 12]\<rparr>) \<and>
   remapAxes edgePoint \<in>
     set (exampleCloud 10 @ remapAxes edgePoint # map examplePoint [10 ..< 19])"
proof -
  have f: "isfinite (px (remapAxes edgePoint))" "isfinite (py (remapAxes edgePoint))"
    "isfinite (pz (remapAxes edgePoint))"
    by (simp_all add: remapAxes_def edgePoint_def)
  have x: "exactSquaredNorm (remapAxes edgePoint) < 1 / 10000"
    by (simp add: exactSquaredNorm_def remapAxes_def edgePoint_def power2_eq_square)
  have l: "\<not> flt_less (Fin (1717987 / 17179869184)) (Fin double_0_0001)"
    by (simp add: double_0_0001_def)
  have m: "remapAxes edgePoint \<in>
     set (exampleCloud 10 @ remapAxes edgePoint # map examplePoint [10 ..< 19])"
    by simp
  show ?thesis
    using f x squaredNorm_edgePoint l edgePoint_kept process_edgeBatch m by (intro conjI)
qed

text \<open>
  C7, amended. A point of the raw batch with a coordinate that is not finite, or
  with a squared norm that single-precision arithmetic puts below 0.0001 (the
  squares and their sums rounded to single precision, compared with the double
  0.0001), is dropped, wherever it stands in the batch: the scan buffer built
  from the batch is the scan buffer built from the points before it followed by
  the one built from the points after it, and without IMU data the remapped
  point is no element of it. Whenever \<open>process\<close> returns, the scan buffer is
  the one of the batch without the point, the sharp, less-sharp and flat clouds
  hold points of the scan buffer only, and what the scan adds to the less-flat
  cloud is the voxel grid's output for points of the scan buffer. When the
  point is neither the first nor the last of the batch, \<open>process\<close> returns for
  the batch exactly what it returns for the batch without the point (the same
  state, hence the same five clouds, or the same failure).
\<close>

theorem malformed_points_dropped:
  assumes "malformed p"
  shows "extractValid cap (pre @ p # post) [] = extractValid cap pre [] @ extractValid cap post [] \<and>
         extractValid cap (pre @ p # post) [] = extractValid cap (pre @ post) [] \<and>
         (\<not> hasIMUData cap \<longrightarrow> remapAxes p \<notin> set (extractValid cap (pre @ p # post) [])) \<and>
         (\<forall>st'. process cfg cap st (pre @ p # post) t = Inr st' \<longrightarrow>
            laserCloud st' = extractValid cap (pre @ post) [] \<and>
            set (cornerPointsSharp st') \<subseteq> set (laserCloud st') \<and>
            set (cornerPointsLessSharp st') \<subseteq> set (laserCloud st') \<and>
            set (surfacePointsFlat st') \<subseteq> set (laserCloud st') \<and>
            (\<exists>xs. set xs \<subseteq> set (laserCloud st') \<and>
               (surfacePointsLessFlat st' = downSize cap (lessFlatFilterSize cfg) xs \<or>
                surfacePointsLessFlat st' =
                  surfacePointsLessFlat st @ downSize cap (lessFlatFilterSize cfg) xs))) \<and>
         (pre \<noteq> [] \<and> post \<noteq> [] \<longrightarrow>
            process cfg cap st (pre @ p # post) t = process cfg cap st (pre @ post) t)"
proof -
  have s: "skipped (remapAxes p)" using assms by (simp add: skipped_remapAxes_iff)
  have a: "extractValid cap (pre @ p # post) [] = extractValid cap pre [] @ extractValid cap post []"
    using s by (simp add: extractValid_acc)
  have b: "extractValid cap (pre @ p # post) [] = extractValid cap (pre @ post) []"
    using s by (simp add: extractValid_acc)
  have n: "remapAxes p \<notin> set (extractValid cap (pre @ p # post) [])" if "\<not> hasIMUData cap"
    by (rule extractValid_no_malformed [OF that assms])
  have o: "laserCloud st' = extractValid cap (pre @ post) [] \<and>
            set (cornerPointsSharp st') \<subseteq> set (laserCloud st') \<and>
            set (cornerPointsLessSharp st') \<subseteq> set (laserCloud st') \<and>
            set (surfacePointsFlat st') \<subseteq> set (laserCloud st') \<and>
            (\<exists>xs. set xs \<subseteq> set (laserCloud st') \<and>
               (surfacePointsLessFlat st' = downSize cap (lessFlatFilterSize cfg) xs \<or>
                surfacePointsLessFlat st' =
                  surfacePointsLessFlat st @ downSize cap (lessFlatFilterSize cfg) xs))"
    if "process cfg cap st (pre @ p # post) t = Inr st'" for st'
    using process_outputs [OF that] unfolding b .
  have c: "process cfg cap st (pre @ p # post) t = process cfg cap st (pre @ post) t"
    if "pre \<noteq> []" "post \<noteq> []"
    unfolding process_def detectSweep_drop_inner [OF that] b ..
  show ?thesis using a b n o c by blast
qed

theorem malformed_points_dropped_witness:
  "malformed nanPoint \<and> \<not> hasIMUData flatCap \<and>
   take 10 (exampleBatch 19) \<noteq> [] \<and> drop 10 (exampleBatch 19) \<noteq> [] \<and>
   extractValid flatCap (take 10 (exampleBatch 19) @ nanPoint # drop 10 (exampleBatch 19)) [] =
     exampleCloud 19 \<and>
   remapAxes nanPoint \<notin> set (exampleCloud 19) \<and>
   process exampleParams flatCap initialState
       (take 10 (exampleBatch 19) @ nanPoint # drop 10 (exampleBatch 19)) (1 / 20) =
     Inr (initialState
       \<lparr>laserCloud := exampleCloud 19,
        surfacePointsFlat :=
          [examplePoint 5, examplePoint 6, examplePoint 8, examplePoint 10, examplePoint 12],
        surfacePointsLessFlat :=
          [examplePoint 5, examplePoint 6, examplePoint 8, examplePoint 10, examplePoint 12]\<rparr>) \<and>
   set [examplePoint 5, examplePoint 6, examplePoint 8, examplePoint 10, examplePoint 12]
     \<subseteq> set (exampleCloud 19)"
proof -
  let ?raw = "take 10 (exampleBatch 19) @ nanPoint # drop 10 (exampleBatch 19)"
  let ?out = "initialState
       \<lparr>laserCloud := exampleCloud 19,
        surfacePointsFlat :=
          [examplePoint 5, examplePoint 6, examplePoint 8, examplePoint 10, examplePoint 12],
        surfacePointsLessFlat :=
          [examplePoint 5, examplePoint 6, examplePoint 8, examplePoint 10, examplePoint 12]\<rparr>"
  have m: "malformed nanPoint" by (simp add: malformed_def remapAxes_def nanPoint_def)
  have i: "\<not> hasIMUData flatCap" by (simp add: flatCap_def exampleCap_def)
  have len: "length (exampleBatch 19) = 19" by (simp add: exampleBatch_def)
  have ne: "take 10 (exampleBatch 19) \<noteq> [] \<and> drop 10 (exampleBatch 19) \<noteq> []"
    using len by auto
  note th = malformed_points_dropped [OF m, of flatCap "take 10 (exampleBatch 19)"
      "drop 10 (exampleBatch 19)" exampleParams initialState "1 / 20",
      unfolded append_take_drop_id]
  have a: "extractValid flatCap ?raw [] = exampleCloud 19"
    by (rule trans [OF th [THEN conjunct2, THEN conjunct1] extractValid_exampleBatch_19])
  have b: "remapAxes nanPoint \<notin> set (exampleCloud 19)"
    using th i unfolding a by blast
  have "process exampleParams flatCap initialState ?raw (1 / 20) =
      process exampleParams flatCap initialState (exampleBatch 19) (1 / 20)"
    using th ne by blast
  then have c: "process exampleParams flatCap initialState ?raw (1 / 20) = Inr ?out"
    by (rule trans) (rule process_flat_19)
  have "set (surfacePointsFlat ?out) \<subseteq> set (laserCloud ?out)"
    using th c by blast
  then have d: "set [examplePoint 5, examplePoint 6, examplePoint 8, examplePoint 10,
      examplePoint 12] \<subseteq> set (exampleCloud 19)"
    by simp
  show ?thesis
    using m i ne a b c d by blast
qed

subsection \<open>Claim C9: the relative time passed to the undistortion\<close>

text \<open>
  C9: the code does not compute a relative time per point. \<^verbatim>\<open>relTime\<close> is the
  constant 0 for every retained point of every batch, whatever its position in
  the scan: the scan buffer is the valid points, in order, each remapped and,
  with IMU data, transformed with relative time 0.
\<close>

theorem undistortion_time_is_zero:
  "extractValid cap pts [] =
     map (\<lambda>p. if hasIMUData cap then transformToStartIMU cap 0 (remapAxes p) else remapAxes p)
       (filter (\<lambda>p. \<not> malformed p) pts)"
  by (simp add: extractValid_acc skipped_remapAxes_iff)

theorem undistortion_time_is_zero_witness:
  "hasIMUData exampleIMU \<and>
   extractValid exampleIMU [exampleRaw 1, exampleRaw 2] [] =
     [transformToStartIMU exampleIMU 0 (remapAxes (exampleRaw 1)),
      transformToStartIMU exampleIMU 0 (remapAxes (exampleRaw 2))] \<and>
   extractValid exampleIMU [exampleRaw 1, exampleRaw 2] [] = [examplePoint 1, examplePoint 2]"
proof -
  have m: "\<not> malformed (exampleRaw 1)" "\<not> malformed (exampleRaw 2)"
    by (simp_all add: skipped_remapAxes_iff [symmetric] remapAxes_exampleRaw examplePoint_kept)
  have h: "hasIMUData exampleIMU" by (simp add: exampleIMU_def)
  have t: "transformToStartIMU exampleIMU 0 (remapAxes (exampleRaw 1)) = examplePoint 1"
    "transformToStartIMU exampleIMU 0 (remapAxes (exampleRaw 2)) = examplePoint 2"
    by (simp_all add: exampleIMU_def remapAxes_def exampleRaw_def examplePoint_def exampleCap_def
        fadd_def round32_def)
  have a: "extractValid exampleIMU [exampleRaw 1, exampleRaw 2] [] =
     [transformToStartIMU exampleIMU 0 (remapAxes (exampleRaw 1)),
      transformToStartIMU exampleIMU 0 (remapAxes (exampleRaw 2))]"
    unfolding undistortion_time_is_zero [of exampleIMU "[exampleRaw 1, exampleRaw 2]"]
    using m h by simp
  show ?thesis
    by (intro conjI) (rule h, rule a, simp only: a t)
qed

subsection \<open>Facts about markAsPicked and the wrapping subtraction\<close>

lemma fold_mark_length: "length (fold (\<lambda>k p. p[k := (1::int)]) ks p) = length p"
  by (induction ks arbitrary: p) simp_all


lemma markAsPicked_length [simp]: "length (markAsPicked nbhd idx picked) = length picked"
  by (simp add: markAsPicked_def fold_mark_length del: fold_simps)



lemma size_sub_less:
  assumes "size_sub a b < n" and "b + n \<le> 2 ^ 64"
  shows "b \<le> a \<and> size_sub a b = a - b"
proof (cases "b \<le> a")
  case True
  then show ?thesis by (simp add: size_sub_def)
next
  case False
  then have "size_sub a b = a + 2 ^ 64 - b" by (simp add: size_sub_def)
  with assms False have False by simp
  then show ?thesis ..
qed



subsection \<open>A pick keeps the invariants\<close>






subsection \<open>The three loops keep the invariants\<close>



lemma size_add_small: "a + b < 2 ^ 64 \<Longrightarrow> size_add a b = a + b"
  by (simp add: size_add_def)



subsection \<open>A region and the region loop keep the invariants\<close>






subsection \<open>Claim C6: the feature classes of a scan\<close>

lemma exampleCap_sized: "regionBuffersSized (exampleCap curv) cloud"
  by (auto simp: regionBuffersSized_def exampleCap_def)

lemma cloudPoints_Nil [simp]: "cloudPoints cloud [] = []"
  by (simp add: cloudPoints_def)





subsection \<open>Claim C1: the region partition\<close>

lemma cornerLoop_in_region:
  assumes run: "cornerLoop cfg nbhd cloudSize sp j s = Inr r"
    and len: "length (regionLabel (snd s)) = n" "sp + n \<le> 2 ^ 64"
    and P: "set (allPicks (snd s)) \<subseteq> R \<union> {sp ..< sp + n}"
  shows "length (regionLabel (snd r)) = n \<and> set (allPicks (snd r)) \<subseteq> R \<union> {sp ..< sp + n}"
proof (rule cornerLoop_invariant [OF run, where P = "\<lambda>s. length (regionLabel (snd s)) = n \<and>
    set (allPicks (snd s)) \<subseteq> R \<union> {sp ..< sp + n}"])
  show "length (regionLabel (snd s)) = n \<and> set (allPicks (snd s)) \<subseteq> R \<union> {sp ..< sp + n}"
    using len P by simp
next
  fix j' s1 c s2
  assume I: "length (regionLabel (snd s1)) = n \<and> set (allPicks (snd s1)) \<subseteq> R \<union> {sp ..< sp + n}"
    and body: "cornerBody cfg nbhd cloudSize sp j' s1 = Inr (c, s2)"
  obtain k b where s1: "s1 = (k, b)" by (cases s1)
  obtain k' b' where s2: "s2 = (k', b')" by (cases s2)
  from I have Ib: "length (regionLabel b) = n" "set (allPicks b) \<subseteq> R \<union> {sp ..< sp + n}"
    by (simp_all add: s1)
  from body have "cornerBody cfg nbhd cloudSize sp j' (k, b) = Inr (c, k', b')"
    by (simp add: s1 s2)
  then have "length (regionLabel b') = n \<and> set (allPicks b') \<subseteq> R \<union> {sp ..< sp + n}"
  proof (cases rule: cornerBody_cases)
    case Skip
    then show ?thesis using Ib by simp
  next
    case Break
    then show ?thesis using Ib by simp
  next
    case (Sharp scanIdx)
    from size_sub_less [of scanIdx sp n] Sharp(8) Ib(1) len(2)
    have "sp \<le> scanIdx \<and> size_sub scanIdx sp = scanIdx - sp" by simp
    with Sharp(8) Ib(1) have "scanIdx \<in> {sp ..< sp + n}" by auto
    then show ?thesis using Ib Sharp(10) by (auto simp: allPicks_def)
  next
    case (LessSharp scanIdx)
    from size_sub_less [of scanIdx sp n] LessSharp(9) Ib(1) len(2)
    have "sp \<le> scanIdx \<and> size_sub scanIdx sp = scanIdx - sp" by simp
    with LessSharp(9) Ib(1) have "scanIdx \<in> {sp ..< sp + n}" by auto
    then show ?thesis using Ib LessSharp(11) by (auto simp: allPicks_def)
  qed
  then show "length (regionLabel (snd s2)) = n \<and> set (allPicks (snd s2)) \<subseteq> R \<union> {sp ..< sp + n}"
    by (simp add: s2)
qed

lemma surfaceLoop_in_region:
  assumes run: "surfaceLoop cfg nbhd cloudSize sp regionSize j s = Inr r"
    and len: "length (regionLabel (snd s)) = n" "sp + n \<le> 2 ^ 64"
    and P: "set (allPicks (snd s)) \<subseteq> R \<union> {sp ..< sp + n}"
  shows "length (regionLabel (snd r)) = n \<and> set (allPicks (snd r)) \<subseteq> R \<union> {sp ..< sp + n}"
proof (rule surfaceLoop_invariant [OF run, where P = "\<lambda>s. length (regionLabel (snd s)) = n \<and>
    set (allPicks (snd s)) \<subseteq> R \<union> {sp ..< sp + n}"])
  show "length (regionLabel (snd s)) = n \<and> set (allPicks (snd s)) \<subseteq> R \<union> {sp ..< sp + n}"
    using len P by simp
next
  fix j' s1 s2
  assume I: "length (regionLabel (snd s1)) = n \<and> set (allPicks (snd s1)) \<subseteq> R \<union> {sp ..< sp + n}"
    and body: "surfaceBody cfg nbhd cloudSize sp j' s1 = Inr s2"
  obtain k b where s1: "s1 = (k, b)" by (cases s1)
  obtain k' b' where s2: "s2 = (k', b')" by (cases s2)
  from I have Ib: "length (regionLabel b) = n" "set (allPicks b) \<subseteq> R \<union> {sp ..< sp + n}"
    by (simp_all add: s1)
  from body have "surfaceBody cfg nbhd cloudSize sp j' (k, b) = Inr (k', b')"
    by (simp add: s1 s2)
  then have "length (regionLabel b') = n \<and> set (allPicks b') \<subseteq> R \<union> {sp ..< sp + n}"
  proof (cases rule: surfaceBody_cases)
    case Skip
    then show ?thesis using Ib by simp
  next
    case (Flat scanIdx)
    from size_sub_less [of scanIdx sp n] Flat(6) Ib(1) len(2)
    have "sp \<le> scanIdx \<and> size_sub scanIdx sp = scanIdx - sp" by simp
    with Flat(6) Ib(1) have "scanIdx \<in> {sp ..< sp + n}" by auto
    then show ?thesis using Ib Flat(8) by (auto simp: allPicks_def)
  qed
  then show "length (regionLabel (snd s2)) = n \<and> set (allPicks (snd s2)) \<subseteq> R \<union> {sp ..< sp + n}"
    by (simp add: s2)
qed

lemma lessFlatLoop_in_region:
  assumes run: "lessFlatLoop cloudSize sp regionSize j b = Inr r"
    and len: "regionSize \<le> n" "sp + n \<le> 2 ^ 64"
    and P: "set (allPicks b) \<subseteq> R \<union> {sp ..< sp + n}"
  shows "set (allPicks r) \<subseteq> R \<union> {sp ..< sp + n}"
proof -
  have "(\<lambda>(j' :: nat) (b' :: extraction). set (allPicks b') \<subseteq> R \<union> {sp ..< sp + n})
      (max j regionSize) r"
  proof (rule lessFlatLoop_invariant [OF run,
        where P = "\<lambda>(j' :: nat) (b' :: extraction). set (allPicks b') \<subseteq> R \<union> {sp ..< sp + n}"])
    show "set (allPicks b) \<subseteq> R \<union> {sp ..< sp + n}" by (rule P)
  next
    fix j' b'
    assume I: "set (allPicks b') \<subseteq> R \<union> {sp ..< sp + n}" and j: "j' < regionSize"
    have "sp + j' < 2 ^ 64" using j len by simp
    then have "size_add sp j' = sp + j'" by (rule size_add_small)
    then have "size_add sp j' \<in> {sp ..< sp + n}" using j len by simp
    then show "set (allPicks (b'\<lparr>lessFlatPicks := lessFlatPicks b' @ [size_add sp j']\<rparr>))
        \<subseteq> R \<union> {sp ..< sp + n}"
      using I by (auto simp: allPicks_def)
  next
    fix j' b'
    assume "set (allPicks b') \<subseteq> R \<union> {sp ..< sp + n}"
    then show "set (allPicks b') \<subseteq> R \<union> {sp ..< sp + n}" .
  qed
  then show ?thesis .
qed

lemma region_in_region:
  assumes run: "extractRegion cfg nbhd cloudSize sp ep b = Inr r"
    and rg: "sp \<le> ep" "length (regionLabel b) = ep - sp" "ep \<le> 2 ^ 64"
    and P: "set (allPicks b) \<subseteq> R"
  shows "set (allPicks r) \<subseteq> R \<union> {sp ..< ep}"
proof -
  from run obtain s1 s2 where
    c: "cornerLoop cfg nbhd cloudSize sp (size_sub (size_sub ep sp) 1) (0, b) = Inr s1"
    and s: "surfaceLoop cfg nbhd cloudSize sp (size_sub ep sp) 0 (0, snd s1) = Inr s2"
    and l: "lessFlatLoop cloudSize sp (size_sub ep sp) 0 (snd s2) = Inr r"
    unfolding extractRegion_def bindE_eq_Inr by blast
  have n: "sp + (ep - sp) \<le> 2 ^ 64" "sp + (ep - sp) = ep" using rg by simp_all
  have P0: "set (allPicks (snd (0 :: int, b))) \<subseteq> R \<union> {sp ..< sp + (ep - sp)}"
    using P by auto
  have l0: "length (regionLabel (snd (0 :: int, b))) = ep - sp" using rg by simp
  note k1 = cornerLoop_in_region [OF c l0 n(1) P0]
  have P1: "set (allPicks (snd (0 :: int, snd s1))) \<subseteq> R \<union> {sp ..< sp + (ep - sp)}"
    using k1 by simp
  have l1: "length (regionLabel (snd (0 :: int, snd s1))) = ep - sp" using k1 by simp
  note k2 = surfaceLoop_in_region [OF s l1 n(1) P1]
  have rs: "size_sub ep sp \<le> ep - sp" using rg by simp
  from lessFlatLoop_in_region [OF l rs n(1) k2 [THEN conjunct2]]
  show ?thesis unfolding n(2) .
qed

lemma regionLoop_in_regions:
  assumes "regionLoop cfg cap cloud sps eps i b = Inr r"
    and "set (allPicks b) \<subseteq> R"
    and "\<forall>k. i \<le> k \<and> k < length sps \<and> k < length eps \<longrightarrow>
                5 \<le> sps ! k \<and> sps ! k \<le> eps ! k \<and> eps ! k \<le> length cloud"
    and "regionBuffersSized cap cloud"
    and "length cloud < 2 ^ 64"
  shows "set (allPicks r) \<subseteq>
           R \<union> (\<Union>k \<in> {k. k < length sps \<and> k < length eps}. {sps ! k ..< eps ! k})"
  using assms
proof (induction cfg cap cloud sps eps i b arbitrary: R rule: regionLoop.induct)
  case (1 cfg cap cloud sps eps i b)
  note sized = "1.prems"(4) and small = "1.prems"(5)
  let ?U = "\<Union>k \<in> {k. k < length sps \<and> k < length eps}. {sps ! k ..< eps ! k}"
  show ?case
  proof (cases "i < nFeatureRegions cfg")
    case False
    with "1.prems"(1) have "r = b" by (simp add: regionLoop.simps)
    with "1.prems"(2) show ?thesis by auto
  next
    case True
    from True "1.prems"(1) obtain sp where rsp: "readAt sps i = Inr sp"
      by (cases "readAt sps i") (auto simp: regionLoop.simps)
    from True "1.prems"(1) rsp obtain ep where rep: "readAt eps i = Inr ep"
      by (cases "readAt eps i") (auto simp: regionLoop.simps)
    let ?b0 = "setRegionBuffersFor cap cloud sp (size_sub ep 1) b"
    from True "1.prems"(1) rsp rep obtain b' where
      reg: "extractRegion cfg (neighborhood cap cloud) (length cloud) sp ep ?b0 = Inr b'"
      by (cases "extractRegion cfg (neighborhood cap cloud) (length cloud) sp ep ?b0")
        (auto simp: regionLoop.simps)
    from True "1.prems"(1) rsp rep reg have
      rec: "regionLoop cfg cap cloud sps eps (i + 1) b' = Inr r"
      by (simp add: regionLoop.simps)
    have i: "i < length sps" "sp = sps ! i" "i < length eps" "ep = eps ! i"
      using rsp rep by (auto simp: readAt_eq_Inr)
    have o: "sp \<le> ep" "ep \<le> length cloud" and o5: "5 \<le> sp" using "1.prems"(3) i by auto
    have e1: "size_sub ep 1 = ep - 1" using o o5 by simp
    have ll: "length (regionLabel ?b0) = ep - sp"
      using sized o o5 by (simp add: regionBuffersSized_def setRegionBuffersFor_def e1)
    have P0: "set (allPicks ?b0) \<subseteq> R"
      using "1.prems"(2) by (simp add: allPicks_def setRegionBuffersFor_def)
    have e64: "ep \<le> 2 ^ 64" using o(2) small by simp
    note k = region_in_region [OF reg o(1) ll e64 P0]
    have ord': "\<forall>k. i + 1 \<le> k \<and> k < length sps \<and> k < length eps \<longrightarrow>
                5 \<le> sps ! k \<and> sps ! k \<le> eps ! k \<and> eps ! k \<le> length cloud"
      using "1.prems"(3) by simp
    from "1.IH" [OF True rsp rep reg rec k ord' sized small]
    have "set (allPicks r) \<subseteq> (R \<union> {sp ..< ep}) \<union> ?U" .
    moreover have "{sp ..< ep} \<subseteq> ?U" using i by blast
    ultimately show ?thesis by blast
  qed
qed

lemma upt_join: "a \<le> b \<Longrightarrow> b \<le> c \<Longrightarrow> [a ..< b] @ [b ..< c] = [a ..< c]"
  using upt_add_eq_append [of a b "c - b"] by simp

lemma four_inclusive_ranges:
  fixes a b c n :: nat
  assumes "a + 1 \<le> b" "b + 1 \<le> c" "c + 12 \<le> n"
  shows "[5 ..< 5 + a + 1] @ [6 + a ..< 5 + b + 1] @ [6 + b ..< 5 + c + 1] @ [6 + c ..< n - 6 + 1]
    = [5 ..< n - 5]"
proof -
  have e: "5 + a + 1 = 6 + a" "5 + b + 1 = 6 + b" "5 + c + 1 = 6 + c" "n - 6 + 1 = n - 5"
    using assms by simp_all
  have "[6 + b ..< 6 + c] @ [6 + c ..< n - 5] = [6 + b ..< n - 5]"
    using assms by (intro upt_join) simp_all
  moreover have "[6 + a ..< 6 + b] @ [6 + b ..< n - 5] = [6 + a ..< n - 5]"
    using assms by (intro upt_join) simp_all
  moreover have "[5 ..< 6 + a] @ [6 + a ..< n - 5] = [5 ..< n - 5]"
    using assms by (intro upt_join) simp_all
  ultimately show ?thesis unfolding e by simp
qed

lemma four_ranges_set:
  fixes a b c n :: nat
  assumes "a + 1 \<le> b" "b + 1 \<le> c" "c + 12 \<le> n"
  shows "set ([5 ..< 5 + a] @ [6 + a ..< 5 + b] @ [6 + b ..< 5 + c] @ [6 + c ..< n - 6])
    = {5 ..< n - 5} - set [5 + a, 5 + b, 5 + c, n - 6]"
  using assms by auto

lemma four_ends:
  fixes a b c n :: nat
  assumes "a + 1 \<le> b" "b + 1 \<le> c" "c + 12 \<le> n"
  shows "distinct [5 + a, 5 + b, 5 + c, n - 6]"
    and "set [5 + a, 5 + b, 5 + c, n - 6] \<subseteq> {5 ..< n - 5}"
  using assms by auto

lemma inclusiveCover_valid:
  assumes "15 \<le> n" and "n < 2 ^ 31"
  shows "inclusiveCover n = Inr [5 ..< n - 5]"
proof -
  have n10: "10 \<le> n" using assms by simp
  let ?q1 = "(n - 10) div 4" and ?q2 = "(n - 10) div 2" and ?q3 = "3 * (n - 10) div 4"
  have q12: "?q1 + 1 \<le> ?q2" using assms by presburger
  have q23: "?q2 + 1 \<le> ?q3" using assms by presburger
  have q3n: "?q3 + 12 \<le> n" using assms by presburger
  have "inclusiveCover n = Inr ([5 ..< 5 + ?q1 + 1] @ [6 + ?q1 ..< 5 + ?q2 + 1] @
      [6 + ?q2 ..< 5 + ?q3 + 1] @ [6 + ?q3 ..< n - 6 + 1])"
    unfolding inclusiveCover_def regions_def startPoints_valid [OF n10 assms(2)]
      endPoints_valid [OF n10 assms(2)]
    by (simp del: upt_Suc)
  then show ?thesis unfolding four_inclusive_ranges [OF q12 q23 q3n] .
qed

lemma extractScan_in_regions:
  assumes n: "15 \<le> length cloud" "length cloud < 2 ^ 31"
    and sized: "regionBuffersSized cap cloud"
    and run: "extractScan cfg cap cloud = Inr b"
    and cov: "regionCover (length cloud) = Inr cover"
  shows "set (allPicks b) \<subseteq> set cover"
proof -
  let ?N = "length cloud"
  let ?q1 = "(?N - 10) div 4" and ?q2 = "(?N - 10) div 2" and ?q3 = "3 * (?N - 10) div 4"
  let ?sps = "[5, 6 + ?q1, 6 + ?q2, 6 + ?q3]"
  let ?eps = "[5 + ?q1, 5 + ?q2, 5 + ?q3, ?N - 6]"
  have n10: "10 \<le> ?N" using n by simp
  have q12: "?q1 + 1 \<le> ?q2" using n by presburger
  have q23: "?q2 + 1 \<le> ?q3" using n by presburger
  have q3n: "?q3 + 12 \<le> ?N" using n by presburger
  have loop: "regionLoop cfg cap cloud ?sps ?eps 0 (initialExtraction cap cloud) = Inr b"
    using run unfolding extractScan_def startPoints_valid [OF n10 n(2)]
      endPoints_valid [OF n10 n(2)] by simp
  have P0: "set (allPicks (initialExtraction cap cloud)) \<subseteq> {}"
    by (simp add: allPicks_def initialExtraction_def)
  have ord: "\<forall>k. 0 \<le> k \<and> k < length ?sps \<and> k < length ?eps \<longrightarrow>
                5 \<le> ?sps ! k \<and> ?sps ! k \<le> ?eps ! k \<and> ?eps ! k \<le> ?N"
  proof (intro allI impI)
    fix k :: nat assume "0 \<le> k \<and> k < length ?sps \<and> k < length ?eps"
    then have "k < 4" by simp
    then consider "k = 0" | "k = 1" | "k = 2" | "k = 3" by linarith
    then show "5 \<le> ?sps ! k \<and> ?sps ! k \<le> ?eps ! k \<and> ?eps ! k \<le> ?N"
      using q12 q23 q3n by cases (simp_all, linarith+)
  qed
  have small: "?N < 2 ^ 64" using n(2) by simp
  note k = regionLoop_in_regions [OF loop P0 ord sized small]
  have c: "cover = [5 ..< 5 + ?q1] @ [6 + ?q1 ..< 5 + ?q2] @ [6 + ?q2 ..< 5 + ?q3] @
      [6 + ?q3 ..< ?N - 6]"
    using cov unfolding regionCover_valid [OF n10 n(2)] by simp
  have u: "(\<Union>k \<in> {k. k < length ?sps \<and> k < length ?eps}. {?sps ! k ..< ?eps ! k}) \<subseteq> set cover"
  proof
    fix p assume "p \<in> (\<Union>k \<in> {k. k < length ?sps \<and> k < length ?eps}. {?sps ! k ..< ?eps ! k})"
    then obtain k where kk: "k < length ?sps \<and> k < length ?eps"
      and m: "p \<in> {?sps ! k ..< ?eps ! k}" by blast
    from kk have k4: "k < 4" by simp
    from k4 consider "k = 0" | "k = 1" | "k = 2" | "k = 3" by linarith
    then show "p \<in> set cover"
      using m unfolding c by cases simp_all
  qed
  show ?thesis using k u by blast
qed

lemma extractScan_flat_30:
  "extractScan exampleParams flatCap (exampleCloud 30) =
     Inr \<lparr>regionCurvature = [Fin 0, Fin 0, Fin 0],
          regionLabel = [SURFACE_FLAT, SURFACE_FLAT, SURFACE_FLAT],
          regionSortIndices = [21, 22, 23],
          scanNeighborPicked = [0, 0, 0, 0, 0, 1, 1, 1, 1, 0, 0, 1, 1, 1, 1, 0, 1, 1, 1, 1, 0,
            1, 1, 1, 0, 0, 0, 0, 0, 0],
          sharpPicks = [], lessSharpPicks = [],
          flatPicks = [5, 6, 7, 8, 11, 12, 13, 14, 16, 17, 18, 19, 21, 22, 23],
          lessFlatPicks = [5, 6, 7, 8, 9, 11, 12, 13, 14, 16, 17, 18, 19, 21, 22, 23]\<rparr>"
  by (simp add: scan_eval flatCap_def
      cong: prod.case_cong_weak sum.case_cong_weak ctl.case_cong_weak if_weak_cong)

text \<open>
  C1: the partition of the claim is the one the tables describe, and the loop
  does not process it. For every point count \<open>n\<close> from 15 up to the range of
  \<^verbatim>\<open>int\<close>, each later start is one past the end before it and the four ranges
  with their end points make up the index range from 5 to \<open>n - 5\<close> exactly. The
  loop takes \<^verbatim>\<open>regionSize = ep - sp\<close> points from \<^verbatim>\<open>sp\<close> and fills the
  region buffers for \<^verbatim>\<open>sp\<close> to \<^verbatim>\<open>ep-1\<close>, so it leaves out the last index
  of every region: the indices it visits are the range from 5 to \<open>n - 5\<close>
  without the four end points, and no extraction that returns ever pushes an
  end point to one of the four clouds.
\<close>

theorem region_loop_drops_last_index:
  assumes "15 \<le> n" and "n < 2 ^ 31"
  shows "\<exists>sps eps cover.
     startPoints n = Inr sps \<and> endPoints n = Inr eps \<and> regionCover n = Inr cover \<and>
     sps = [5, 6 + (n - 10) div 4, 6 + (n - 10) div 2, 6 + 3 * (n - 10) div 4] \<and>
     eps = [5 + (n - 10) div 4, 5 + (n - 10) div 2, 5 + 3 * (n - 10) div 4, n - 6] \<and>
     (\<forall>k<3. sps ! (k + 1) = eps ! k + 1) \<and>
     inclusiveCover n = Inr [5 ..< n - 5] \<and>
     sorted cover \<and> distinct cover \<and> distinct eps \<and> set eps \<subseteq> {5 ..< n - 5} \<and>
     set cover = {5 ..< n - 5} - set eps \<and>
     (\<forall>cfg cap cloud b.
        length cloud = n \<and> regionBuffersSized cap cloud \<and> extractScan cfg cap cloud = Inr b \<longrightarrow>
        set (allPicks b) \<subseteq> set cover \<and> set (allPicks b) \<inter> set eps = {})"
proof -
  have n10: "10 \<le> n" using assms by simp
  let ?q1 = "(n - 10) div 4" and ?q2 = "(n - 10) div 2" and ?q3 = "3 * (n - 10) div 4"
  let ?sps = "[5, 6 + ?q1, 6 + ?q2, 6 + ?q3]"
  let ?eps = "[5 + ?q1, 5 + ?q2, 5 + ?q3, n - 6]"
  let ?cover = "[5 ..< 5 + ?q1] @ [6 + ?q1 ..< 5 + ?q2] @ [6 + ?q2 ..< 5 + ?q3] @ [6 + ?q3 ..< n - 6]"
  have q12: "?q1 + 1 \<le> ?q2" using assms by presburger
  have q23: "?q2 + 1 \<le> ?q3" using assms by presburger
  have q3n: "?q3 + 12 \<le> n" using assms by presburger
  have adj: "\<forall>k<3. ?sps ! (k + 1) = ?eps ! k + 1"
  proof (intro allI impI)
    fix k :: nat assume "k < 3"
    then consider "k = 0" | "k = 1" | "k = 2" by linarith
    then show "?sps ! (k + 1) = ?eps ! k + 1"
      by cases simp_all
  qed
  have srt: "sorted ?cover"
    by (rule four_ranges_sorted [OF q12 q23 q3n])
  have dst: "distinct ?cover"
    by (rule four_ranges_distinct [OF q12 q23 q3n])
  have de: "distinct ?eps" by (rule four_ends(1) [OF q12 q23 q3n])
  have se: "set ?eps \<subseteq> {5 ..< n - 5}" by (rule four_ends(2) [OF q12 q23 q3n])
  have sc: "set ?cover = {5 ..< n - 5} - set ?eps"
    by (rule four_ranges_set [OF q12 q23 q3n])
  have cv: "regionCover n = Inr ?cover" by (rule regionCover_valid [OF n10 assms(2)])
  have pk: "set (allPicks b) \<subseteq> set ?cover \<and> set (allPicks b) \<inter> set ?eps = {}"
    if l: "length cloud = n" and sized: "regionBuffersSized cap cloud"
      and run: "extractScan cfg cap cloud = Inr b"
    for cfg cap and cloud :: "point list" and b
  proof -
    have "set (allPicks b) \<subseteq> set ?cover"
      by (rule extractScan_in_regions [OF _ _ sized run]) (use assms in \<open>simp_all add: l cv\<close>)
    then show ?thesis unfolding sc by blast
  qed
  show ?thesis
    using startPoints_valid [OF n10 assms(2)] endPoints_valid [OF n10 assms(2)] cv adj
      inclusiveCover_valid [OF assms] srt dst de se sc pk
    by blast
qed

theorem region_loop_drops_last_index_witness:
  "(15 :: nat) \<le> 30 \<and> (30 :: nat) < 2 ^ 31 \<and>
   startPoints 30 = Inr [5, 11, 16, 21] \<and> endPoints 30 = Inr [10, 15, 20, 24] \<and>
   inclusiveCover 30 = Inr [5 ..< 25] \<and>
   regionCover 30 = Inr [5, 6, 7, 8, 9, 11, 12, 13, 14, 16, 17, 18, 19, 21, 22, 23] \<and>
   length (exampleCloud 30) = 30 \<and> regionBuffersSized flatCap (exampleCloud 30) \<and>
   extractScan exampleParams flatCap (exampleCloud 30) =
     Inr \<lparr>regionCurvature = [Fin 0, Fin 0, Fin 0],
          regionLabel = [SURFACE_FLAT, SURFACE_FLAT, SURFACE_FLAT],
          regionSortIndices = [21, 22, 23],
          scanNeighborPicked = [0, 0, 0, 0, 0, 1, 1, 1, 1, 0, 0, 1, 1, 1, 1, 0, 1, 1, 1, 1, 0,
            1, 1, 1, 0, 0, 0, 0, 0, 0],
          sharpPicks = [], lessSharpPicks = [],
          flatPicks = [5, 6, 7, 8, 11, 12, 13, 14, 16, 17, 18, 19, 21, 22, 23],
          lessFlatPicks = [5, 6, 7, 8, 9, 11, 12, 13, 14, 16, 17, 18, 19, 21, 22, 23]\<rparr> \<and>
   set ([5, 6, 7, 8, 11, 12, 13, 14, 16, 17, 18, 19, 21, 22, 23] @
        [5, 6, 7, 8, 9, 11, 12, 13, 14, 16, 17, 18, 19, 21, 22, 23]) \<inter>
     set [10, 15, 20, 24 :: nat] = {}"
proof -
  have a: "(15 :: nat) \<le> 30" and b: "(30 :: nat) < 2 ^ 31" by simp_all
  have l: "length (exampleCloud 30) = 30" by (simp add: exampleCloud_def)
  have z: "regionBuffersSized flatCap (exampleCloud 30)"
    unfolding flatCap_def by (rule exampleCap_sized)
  from region_loop_drops_last_index [OF a b] obtain sps eps cover where
    s: "startPoints 30 = Inr sps" and e: "endPoints 30 = Inr eps"
    and c: "regionCover 30 = Inr cover"
    and sv: "sps = [5, 6 + (30 - 10) div 4, 6 + (30 - 10) div 2, 6 + 3 * (30 - 10) div 4]"
    and ev: "eps = [5 + (30 - 10) div 4, 5 + (30 - 10) div 2, 5 + 3 * (30 - 10) div 4, 30 - 6]"
    and i: "inclusiveCover 30 = Inr [5 ..< 30 - 5]"
    and p: "\<forall>cfg cap cloud b.
        length cloud = 30 \<and> regionBuffersSized cap cloud \<and> extractScan cfg cap cloud = Inr b \<longrightarrow>
        set (allPicks b) \<subseteq> set cover \<and> set (allPicks b) \<inter> set eps = {}"
    by blast
  have s': "startPoints 30 = Inr [5, 11, 16, 21]" using s sv by simp
  have e': "endPoints 30 = Inr [10, 15, 20, 24]" using e ev by simp
  have i': "inclusiveCover 30 = Inr [5 ..< 25]" using i by simp
  have c': "regionCover 30 = Inr [5, 6, 7, 8, 9, 11, 12, 13, 14, 16, 17, 18, 19, 21, 22, 23]"
    by (simp add: regionCover_def regions_def s' e' regionIndices_def upt_rec)
  from p l z extractScan_flat_30 have
    "set (allPicks \<lparr>regionCurvature = [Fin 0, Fin 0, Fin 0],
          regionLabel = [SURFACE_FLAT, SURFACE_FLAT, SURFACE_FLAT],
          regionSortIndices = [21, 22, 23],
          scanNeighborPicked = [0, 0, 0, 0, 0, 1, 1, 1, 1, 0, 0, 1, 1, 1, 1, 0, 1, 1, 1, 1, 0,
            1, 1, 1, 0, 0, 0, 0, 0, 0],
          sharpPicks = [], lessSharpPicks = [],
          flatPicks = [5, 6, 7, 8, 11, 12, 13, 14, 16, 17, 18, 19, 21, 22, 23],
          lessFlatPicks = [5, 6, 7, 8, 9, 11, 12, 13, 14, 16, 17, 18, 19, 21, 22, 23]\<rparr>)
       \<inter> set eps = {}"
    by blast
  then have d: "set ([5, 6, 7, 8, 11, 12, 13, 14, 16, 17, 18, 19, 21, 22, 23] @
        [5, 6, 7, 8, 9, 11, 12, 13, 14, 16, 17, 18, 19, 21, 22, 23]) \<inter>
     set [10, 15, 20, 24 :: nat] = {}"
    unfolding ev by (simp add: allPicks_def)
  show ?thesis
    using a b s' e' i' c' l z extractScan_flat_30 d by (intro conjI)
qed

end
